theory Spec2Isabelle
  imports Main "HOL-Library.Sublist" "HOL-Library.AList" "HOL-Library.Multiset"
begin

section \<open>JavaScript values used by scripts/fetch.js\<close>

text \<open>
  Locators, identifiers and titles are modelled as \<open>string\<close>: a \<open>char\<close> stands for a
  UTF-16 code unit below 256. An emoji literal is built by \<open>String.fromCodePoint\<close>
  and holds code units above 255, so it is a list of code units, each a natural number.
\<close>

type_synonym literal = "nat list"

datatype error = TypeError | RangeError | UncategorizedEmoji

subsection \<open>String primitives\<close>

text \<open>\<open>s.includes(pat)\<close>.\<close>

fun str_includes :: "string \<Rightarrow> string \<Rightarrow> bool" where
  "str_includes pat [] = (pat = [])"
| "str_includes pat (c # cs) = (prefix pat (c # cs) \<or> str_includes pat cs)"

text \<open>
  \<open>s.split(sep)\<close> for a string separator: the occurrences of \<open>sep\<close> are found from
  left to right, the search resuming after each one. An empty separator splits between
  all code units.
\<close>

function js_split :: "string \<Rightarrow> string \<Rightarrow> string list" where
  "js_split sep [] = (if sep = [] then [] else [[]])"
| "js_split sep (c # cs) =
     (if sep = [] then map (\<lambda>x. [x]) (c # cs)
      else if prefix sep (c # cs) then [] # js_split sep (drop (length sep) (c # cs))
      else (case js_split sep cs of
              [] \<Rightarrow> [[c]]
            | p # ps \<Rightarrow> (c # p) # ps))"
  by pat_completeness auto
termination
  by (relation "measure (\<lambda>(sep, s). length s)") (auto simp: Suc_le_eq)

text \<open>\<open>getLast(array)\<close>: \<open>array[array.length - 1]\<close>, \<open>undefined\<close> on the empty array.\<close>

definition getLast :: "'a list \<Rightarrow> 'a option" where
  "getLast array = (if array = [] then None else Some (last array))"

text \<open>The white space that \<open>\s\<close> matches and that \<open>parseInt\<close> skips, below 256.\<close>

definition is_space :: "char \<Rightarrow> bool" where
  "is_space c = (c \<in> set [CHR 0x09, CHR 0x0A, CHR 0x0B, CHR 0x0C, CHR 0x0D, CHR 0x20, CHR 0xA0])"

definition hex_digit :: "char \<Rightarrow> nat option" where
  "hex_digit c =
     map_of
       [(CHR ''0'', 0), (CHR ''1'', 1), (CHR ''2'', 2), (CHR ''3'', 3), (CHR ''4'', 4),
        (CHR ''5'', 5), (CHR ''6'', 6), (CHR ''7'', 7), (CHR ''8'', 8), (CHR ''9'', 9),
        (CHR ''a'', 10), (CHR ''b'', 11), (CHR ''c'', 12), (CHR ''d'', 13), (CHR ''e'', 14),
        (CHR ''f'', 15), (CHR ''A'', 10), (CHR ''B'', 11), (CHR ''C'', 12), (CHR ''D'', 13),
        (CHR ''E'', 14), (CHR ''F'', 15)] c"

definition is_hex :: "char \<Rightarrow> bool" where
  "is_hex c = (hex_digit c \<noteq> None)"

definition hex_value :: "string \<Rightarrow> nat" where
  "hex_value ds = foldl (\<lambda>n c. 16 * n + (case hex_digit c of Some d \<Rightarrow> d | None \<Rightarrow> 0)) 0 ds"

text \<open>
  \<open>Number.parseInt(text, 16)\<close>: leading white space is skipped, then a sign, then a
  \<open>0x\<close> or \<open>0X\<close> prefix; the longest run of hexadecimal digits that follows is the
  number, and \<open>NaN\<close> (here \<open>None\<close>) when that run is empty. The result is kept exact:
  the only consumer rejects everything above 0x10FFFF, where a double is exact.
\<close>

definition parseInt16 :: "string \<Rightarrow> int option" where
  "parseInt16 s =
     (let s1 = dropWhile is_space s;
          negative = (s1 \<noteq> [] \<and> hd s1 = CHR ''-'');
          s2 = (if s1 \<noteq> [] \<and> (hd s1 = CHR ''+'' \<or> hd s1 = CHR ''-'') then tl s1 else s1);
          s3 = (if prefix ''0x'' s2 \<or> prefix ''0X'' s2 then drop 2 s2 else s2);
          ds = takeWhile is_hex s3
      in if ds = [] then None
         else Some (if negative then - int (hex_value ds) else int (hex_value ds)))"

text \<open>
  \<open>String.fromCodePoint(n)\<close>: a \<open>RangeError\<close> for \<open>NaN\<close>, a negative number or one
  above 0x10FFFF; one code unit up to 0xFFFF, a surrogate pair above.
\<close>

definition fromCodePoint :: "int option \<Rightarrow> error + literal" where
  "fromCodePoint n =
     (case n of
        None \<Rightarrow> Inl RangeError
      | Some i \<Rightarrow>
          if i < 0 \<or> 0x10FFFF < i then Inl RangeError
          else if i \<le> 0xFFFF then Inr [nat i]
          else Inr [0xD800 + (nat i - 0x10000) div 0x400, 0xDC00 + (nat i - 0x10000) mod 0x400])"

text \<open>\<open>texts.map(t => String.fromCodePoint(parseInt(t, 16))).join("")\<close>, stopping at the first exception.\<close>

fun codePoints :: "string list \<Rightarrow> error + literal" where
  "codePoints [] = Inr []"
| "codePoints (t # ts) =
     (case fromCodePoint (parseInt16 t) of
        Inl e \<Rightarrow> Inl e
      | Inr us \<Rightarrow> (case codePoints ts of Inl e \<Rightarrow> Inl e | Inr vs \<Rightarrow> Inr (us @ vs)))"

subsection \<open>The literal of one locator (getGithubEmojiIdMap, lines 18-29)\<close>

datatype emoji_ref = Literal literal | Custom string

text \<open>\<open>getLast(url.split("/")).split(".png")[0]\<close>.\<close>

definition file_stem :: "string \<Rightarrow> error + string" where
  "file_stem url =
     (case getLast (js_split ''/'' url) of
        None \<Rightarrow> Inl TypeError
      | Some name \<Rightarrow> (case js_split ''.png'' name of [] \<Rightarrow> Inl TypeError | stem # _ \<Rightarrow> Inr stem))"

definition decode :: "string \<Rightarrow> error + emoji_ref" where
  "decode url =
     (case file_stem url of
        Inl e \<Rightarrow> Inl e
      | Inr stem \<Rightarrow>
          if str_includes ''/unicode/'' url
          then (case codePoints (js_split ''-'' stem) of
                  Inl e \<Rightarrow> Inl e
                | Inr l \<Rightarrow> Inr (Literal l))
          else Inr (Custom stem))"

subsection \<open>toTitleCase (lines 146-151)\<close>

definition is_alpha :: "char \<Rightarrow> bool" where
  "is_alpha c = (c \<in> set ''abcdefghijklmnopqrstuvwxyzABCDEFGHIJKLMNOPQRSTUVWXYZ'')"

text \<open>\<open>word[0].toUpperCase()\<close> on one code unit that \<open>[a-zA-Z]\<close> matched.\<close>

definition toUpperCase :: "char \<Rightarrow> char" where
  "toUpperCase c =
     (case map_of (zip ''abcdefghijklmnopqrstuvwxyz'' ''ABCDEFGHIJKLMNOPQRSTUVWXYZ'') c of
        Some u \<Rightarrow> u
      | None \<Rightarrow> c)"

text \<open>\<open>.replace(/-/g, " ")\<close>.\<close>

definition replace_hyphens :: "string \<Rightarrow> string" where
  "replace_hyphens s = map (\<lambda>c. if c = CHR ''-'' then CHR '' '' else c) s"

text \<open>\<open>.replace(/\s+/g, " ")\<close>: each maximal run of white space becomes one space.\<close>

function collapse_spaces :: "string \<Rightarrow> string" where
  "collapse_spaces [] = []"
| "collapse_spaces (c # cs) =
     (if is_space c then CHR '' '' # collapse_spaces (dropWhile is_space cs)
      else c # collapse_spaces cs)"
  by pat_completeness auto
termination
  by (relation "measure length") (auto simp: length_dropWhile_le less_Suc_eq_le)

text \<open>
  \<open>.replace(/[a-zA-Z]+/g, word => word[0].toUpperCase() + word.slice(1))\<close>: the match
  is the maximal run of letters that starts at the first letter met.
\<close>

function capitalize_words :: "string \<Rightarrow> string" where
  "capitalize_words [] = []"
| "capitalize_words (c # cs) =
     (if is_alpha c
      then toUpperCase c # takeWhile is_alpha cs @ capitalize_words (dropWhile is_alpha cs)
      else c # capitalize_words cs)"
  by pat_completeness auto
termination
  by (relation "measure length") (auto simp: length_dropWhile_le less_Suc_eq_le)

definition toTitleCase :: "string \<Rightarrow> string" where
  "toTitleCase str = capitalize_words (collapse_spaces (replace_hyphens str))"

section \<open>Plain objects\<close>

text \<open>
  A plain object is the list of its own properties in the order of their creation.
  Assigning to an existing key keeps its place, \<open>delete\<close> removes the property.
  \<open>Object.keys\<close> and \<open>Object.entries\<close> list the keys that are array indices first
  (canonical decimal numerals below \<open>2^32 - 1\<close>), in ascending numeric order, and
  then the other keys in the order of their creation.
\<close>

type_synonym 'v obj = "(string \<times> 'v) list"

definition obj_get :: "('k \<times> 'v) list \<Rightarrow> 'k \<Rightarrow> 'v option" where
  "obj_get ob k = map_of ob k"

definition obj_set :: "('k \<times> 'v) list \<Rightarrow> 'k \<Rightarrow> 'v \<Rightarrow> ('k \<times> 'v) list" where
  "obj_set ob k v = AList.update k v ob"

definition obj_delete :: "('k \<times> 'v) list \<Rightarrow> 'k \<Rightarrow> ('k \<times> 'v) list" where
  "obj_delete ob k = AList.delete k ob"

definition is_digit :: "char \<Rightarrow> bool" where
  "is_digit c = (c \<in> set ''0123456789'')"

definition decimal_value :: "string \<Rightarrow> nat" where
  "decimal_value ds = foldl (\<lambda>n c. 10 * n + (case hex_digit c of Some d \<Rightarrow> d | None \<Rightarrow> 0)) 0 ds"

definition array_index :: "string \<Rightarrow> nat option" where
  "array_index k =
     (if k \<noteq> [] \<and> list_all is_digit k \<and> (k = ''0'' \<or> hd k \<noteq> CHR ''0'')
         \<and> decimal_value k < 4294967295
      then Some (decimal_value k) else None)"

definition index_order :: "string \<times> 'v \<Rightarrow> nat" where
  "index_order e = (case array_index (fst e) of Some n \<Rightarrow> n | None \<Rightarrow> 0)"

definition Object_entries :: "'v obj \<Rightarrow> (string \<times> 'v) list" where
  "Object_entries ob =
     sort_key index_order (filter (\<lambda>e. array_index (fst e) \<noteq> None) ob)
       @ filter (\<lambda>e. array_index (fst e) = None) ob"

definition Object_keys :: "'v obj \<Rightarrow> string list" where
  "Object_keys ob = map fst (Object_entries ob)"

definition Object_fromEntries :: "(string \<times> 'v) list \<Rightarrow> 'v obj" where
  "Object_fromEntries es = foldl (\<lambda>ob e. obj_set ob (fst e) (snd e)) [] es"

text \<open>
  The property names every plain object inherits from \<open>Object.prototype\<close>. Reading
  one of them from an object that has no own property of that name yields a function
  (the prototype itself for \<open>__proto__\<close>), and \<open>in\<close> holds for them.
\<close>

definition object_prototype_keys :: "string list" where
  "object_prototype_keys =
     [''constructor'', ''__defineGetter__'', ''__defineSetter__'', ''hasOwnProperty'',
      ''__lookupGetter__'', ''__lookupSetter__'', ''isPrototypeOf'', ''propertyIsEnumerable'',
      ''toString'', ''valueOf'', ''__proto__'', ''toLocaleString'']"

definition inherited :: "string \<Rightarrow> bool" where
  "inherited k = (k \<in> set object_prototype_keys)"

definition code_units :: "string \<Rightarrow> literal" where
  "code_units s = map of_char s"

definition inherited_literal :: "literal \<Rightarrow> bool" where
  "inherited_literal l = (l \<in> set (map code_units object_prototype_keys))"

text \<open>A \<open>for ... of\<close> loop whose body may throw: the first exception ends it.\<close>

fun for_of :: "('s \<Rightarrow> 'a \<Rightarrow> error + 's) \<Rightarrow> 's \<Rightarrow> 'a list \<Rightarrow> error + 's" where
  "for_of body st [] = Inr st"
| "for_of body st (x # xs) =
     (case body st x of Inl e \<Rightarrow> Inl e | Inr st' \<Rightarrow> for_of body st' xs)"

section \<open>getGithubEmojiIdMap (lines 7-31)\<close>

text \<open>
  The parameter \<open>json\<close> is the object that \<open>fetchJson\<close> returned. \<open>.map\<close> decodes
  the locators in the order of \<open>Object.entries\<close> and passes on the first exception.
\<close>

fun decode_entries :: "(string \<times> string) list \<Rightarrow> error + (string \<times> emoji_ref) list" where
  "decode_entries [] = Inr []"
| "decode_entries (e # es) =
     (case decode (snd e) of
        Inl err \<Rightarrow> Inl err
      | Inr r \<Rightarrow> (case decode_entries es of Inl err \<Rightarrow> Inl err | Inr rs \<Rightarrow> Inr ((fst e, r) # rs)))"

definition getGithubEmojiIdMap :: "string obj \<Rightarrow> error + emoji_ref obj" where
  "getGithubEmojiIdMap json =
     (case decode_entries (Object_entries json) of
        Inl err \<Rightarrow> Inl err
      | Inr es \<Rightarrow> Inr (Object_fromEntries es))"

section \<open>getCategorizeGithubEmojiIds (lines 62-141)\<close>

type_synonym group = "string list"

type_synonym taxonomy = "(group list obj) obj"

text \<open>
  A record of the iterator: \<open>{ type, value }\<close>. The iterator yields the three types
  below and no other, so the \<open>default\<close> branch of the \<open>switch\<close> is never taken.
\<close>

datatype taxonomy_record = Category string | Subcategory string | Emoji literal

record state =
  githubEmojiIdMap :: "emoji_ref obj"
  emojiLiteralToGithubEmojiIdsMap :: "(literal \<times> group) list"
  githubSpecificEmojiUriToGithubEmojiIdsMap :: "group obj"
  categorizedEmojiIds :: taxonomy
  categoryStack :: "string list"

subsection \<open>The two side tables (lines 68-82)\<close>

text \<open>
  \<open>if (!m[k]) m[k] = []; m[k].push(emojiId)\<close> for a key that is not inherited: every
  stored value is an array, so \<open>!m[k]\<close> holds exactly when \<open>k\<close> is no own property.
\<close>

definition push_id :: "('k \<times> group) list \<Rightarrow> 'k \<Rightarrow> string \<Rightarrow> ('k \<times> group) list" where
  "push_id m k emojiId =
     (case obj_get m k of
        None \<Rightarrow> obj_set m k [emojiId]
      | Some ids \<Rightarrow> obj_set m k (ids @ [emojiId]))"

text \<open>
  For an inherited key that is no own property \<open>!m[k]\<close> is false, and \<open>m[k].push\<close> is
  \<open>undefined\<close>: the call throws a \<open>TypeError\<close>.
\<close>

definition partition_entry :: "state \<Rightarrow> string \<times> emoji_ref \<Rightarrow> error + state" where
  "partition_entry st e =
     (case snd e of
        Custom uri \<Rightarrow>
          if obj_get (githubSpecificEmojiUriToGithubEmojiIdsMap st) uri = None \<and> inherited uri
          then Inl TypeError
          else Inr (st\<lparr>githubSpecificEmojiUriToGithubEmojiIdsMap :=
                         push_id (githubSpecificEmojiUriToGithubEmojiIdsMap st) uri (fst e),
                       githubEmojiIdMap := obj_delete (githubEmojiIdMap st) (fst e)\<rparr>)
      | Literal emojiLiteral \<Rightarrow>
          if obj_get (emojiLiteralToGithubEmojiIdsMap st) emojiLiteral = None
             \<and> inherited_literal emojiLiteral
          then Inl TypeError
          else Inr (st\<lparr>emojiLiteralToGithubEmojiIdsMap :=
                         push_id (emojiLiteralToGithubEmojiIdsMap st) emojiLiteral (fst e)\<rparr>))"

definition initial_state :: "emoji_ref obj \<Rightarrow> state" where
  "initial_state idMap =
     \<lparr>githubEmojiIdMap = idMap, emojiLiteralToGithubEmojiIdsMap = [],
      githubSpecificEmojiUriToGithubEmojiIdsMap = [], categorizedEmojiIds = [],
      categoryStack = []\<rparr>"

definition partition_ids :: "emoji_ref obj \<Rightarrow> error + state" where
  "partition_ids idMap = for_of partition_entry (initial_state idMap) (Object_entries idMap)"

subsection \<open>The walk over the records (lines 86-117)\<close>

text \<open>\<open>value.replace(re, "")\<close>, where \<open>re\<close> is the global pattern for one code unit in the range FE00 to FE0F or equal to 200D.\<close>

definition strip_selectors :: "literal \<Rightarrow> literal" where
  "strip_selectors v = filter (\<lambda>u. \<not> ((0xFE00 \<le> u \<and> u \<le> 0xFE0F) \<or> u = 0x200D)) v"

text \<open>
  An element of \<open>categoryStack\<close> used as a property key: an index past the end reads
  \<open>undefined\<close>, which as a key is the text \<open>undefined\<close>.
\<close>

definition stack_key :: "string list \<Rightarrow> nat \<Rightarrow> string" where
  "stack_key stack i = (if i < length stack then stack ! i else ''undefined'')"

text \<open>
  Every key of \<open>categorizedEmojiIds\<close> and of its subcategory objects is a result of
  \<open>toTitleCase\<close> or the text \<open>undefined\<close>; none of these is inherited (lemmas
  \<open>toTitleCase_not_inherited\<close>, \<open>undefined_not_inherited\<close>), so a read of these objects
  sees own properties only. Reading a property of \<open>undefined\<close> throws a \<open>TypeError\<close>.
  An emoji key that is only inherited passes the \<open>in\<close> test with a value that is no
  array: the \<open>for ... of\<close> over it (or the \<open>push\<close> before) throws a \<open>TypeError\<close>.
\<close>

fun walk_record :: "state \<Rightarrow> taxonomy_record \<Rightarrow> error + state" where
  "walk_record st (Category v) =
     (let title = toTitleCase v
      in Inr (st\<lparr>categoryStack := [title],
                 categorizedEmojiIds := obj_set (categorizedEmojiIds st) title []\<rparr>))"
| "walk_record st (Subcategory v) =
     (let popped = (if length (categoryStack st) > 1 then butlast (categoryStack st)
                    else categoryStack st);
          title = toTitleCase v;
          stack = popped @ [title]
      in case obj_get (categorizedEmojiIds st) (stack_key stack 0) of
           None \<Rightarrow> Inl TypeError
         | Some sub \<Rightarrow>
             Inr (st\<lparr>categoryStack := stack,
                     categorizedEmojiIds :=
                       obj_set (categorizedEmojiIds st) (stack_key stack 0) (obj_set sub title [])\<rparr>))"
| "walk_record st (Emoji v) =
     (let key = strip_selectors v
      in case obj_get (emojiLiteralToGithubEmojiIdsMap st) key of
           None \<Rightarrow> if inherited_literal key then Inl TypeError else Inr st
         | Some githubEmojiIds \<Rightarrow>
             (let category = stack_key (categoryStack st) 0;
                  subcategory = stack_key (categoryStack st) 1
              in case obj_get (categorizedEmojiIds st) category of
                   None \<Rightarrow> Inl TypeError
                 | Some sub \<Rightarrow>
                     (case obj_get sub subcategory of
                        None \<Rightarrow> Inl TypeError
                      | Some groups \<Rightarrow>
                          Inr (st\<lparr>categorizedEmojiIds :=
                                    obj_set (categorizedEmojiIds st) category
                                      (obj_set sub subcategory (groups @ [githubEmojiIds])),
                                  githubEmojiIdMap :=
                                    fold (\<lambda>githubEmojiId m. obj_delete m githubEmojiId)
                                      githubEmojiIds (githubEmojiIdMap st)\<rparr>))))"

definition walk :: "state \<Rightarrow> taxonomy_record list \<Rightarrow> error + state" where
  "walk st records = for_of walk_record st records"

subsection \<open>Pruning (lines 121-132)\<close>

definition prune_subcategory :: "group list obj \<Rightarrow> string \<Rightarrow> error + group list obj" where
  "prune_subcategory sub subcategory =
     (case obj_get sub subcategory of
        None \<Rightarrow> Inl TypeError
      | Some groups \<Rightarrow> Inr (if length groups = 0 then obj_delete sub subcategory else sub))"

definition prune_category :: "taxonomy \<Rightarrow> string \<Rightarrow> error + taxonomy" where
  "prune_category cats category =
     (case obj_get cats category of
        None \<Rightarrow> Inl TypeError
      | Some sub \<Rightarrow>
          (case for_of prune_subcategory sub (Object_keys sub) of
             Inl err \<Rightarrow> Inl err
           | Inr sub' \<Rightarrow>
               Inr (if length (Object_keys sub') = 0 then obj_delete cats category
                    else obj_set cats category sub')))"

definition prune :: "taxonomy \<Rightarrow> error + taxonomy" where
  "prune cats = for_of prune_category cats (Object_keys cats)"

subsection \<open>The synthetic category (lines 133-139) and the whole function\<close>

definition add_custom :: "group obj \<Rightarrow> taxonomy \<Rightarrow> taxonomy" where
  "add_custom uriMap cats =
     (if length (Object_keys uriMap) \<noteq> 0
      then obj_set cats ''GitHub Custom Emoji'' [('''', map snd (Object_entries uriMap))]
      else cats)"

definition finish :: "state \<Rightarrow> error + taxonomy" where
  "finish st =
     (if length (Object_keys (githubEmojiIdMap st)) \<noteq> 0 then Inl UncategorizedEmoji
      else (case prune (categorizedEmojiIds st) of
              Inl err \<Rightarrow> Inl err
            | Inr cats \<Rightarrow> Inr (add_custom (githubSpecificEmojiUriToGithubEmojiIdsMap st) cats)))"

definition getCategorizeGithubEmojiIds :: "string obj \<Rightarrow> taxonomy_record list \<Rightarrow> error + taxonomy" where
  "getCategorizeGithubEmojiIds json records =
     (case getGithubEmojiIdMap json of
        Inl err \<Rightarrow> Inl err
      | Inr idMap \<Rightarrow>
          (case partition_ids idMap of
             Inl err \<Rightarrow> Inl err
           | Inr st \<Rightarrow>
               (case walk st records of
                  Inl err \<Rightarrow> Inl err
                | Inr st' \<Rightarrow> finish st')))"

section \<open>The specification's wording, and the invariants of the proofs\<close>

subsection \<open>Title-casing as one pass per rule\<close>

text \<open>
  Hyphens become spaces; a white-space character that follows a white-space character is
  dropped and the first of a run becomes a space; a letter that does not follow a letter
  is upper-cased, and every other character is kept.
\<close>

fun squeeze :: "bool \<Rightarrow> string \<Rightarrow> string" where
  "squeeze after_space [] = []"
| "squeeze after_space (c # cs) =
     (if is_space c then (if after_space then squeeze True cs else CHR '' '' # squeeze True cs)
      else c # squeeze False cs)"

fun capitalize :: "bool \<Rightarrow> string \<Rightarrow> string" where
  "capitalize after_letter [] = []"
| "capitalize after_letter (c # cs) =
     (if is_alpha c then (if after_letter then c else toUpperCase c) # capitalize True cs
      else c # capitalize False cs)"

definition title_case_spec :: "string \<Rightarrow> string" where
  "title_case_spec s = capitalize False (squeeze False (map (\<lambda>c. if c = CHR ''-'' then CHR '' '' else c) s))"

text \<open>The first letter of a text, if it has one, is an upper-case letter.\<close>

definition is_upper :: "char \<Rightarrow> bool" where
  "is_upper c = (c \<in> set ''ABCDEFGHIJKLMNOPQRSTUVWXYZ'')"

definition first_letter_upper :: "string \<Rightarrow> bool" where
  "first_letter_upper s = (case dropWhile (\<lambda>c. \<not> is_alpha c) s of [] \<Rightarrow> True | c # _ \<Rightarrow> is_upper c)"

subsection \<open>Kinds of records\<close>

fun is_Category :: "taxonomy_record \<Rightarrow> bool" where
  "is_Category (Category v) = True"
| "is_Category r = False"

fun is_Subcategory :: "taxonomy_record \<Rightarrow> bool" where
  "is_Subcategory (Subcategory v) = True"
| "is_Subcategory r = False"

subsection \<open>Identifiers by decoded value\<close>

text \<open>The identifiers among \<open>es\<close> whose decoded value is \<open>r\<close>, in the order of \<open>es\<close>.\<close>

definition ids_with :: "emoji_ref \<Rightarrow> (string \<times> emoji_ref) list \<Rightarrow> string list" where
  "ids_with r es = map fst (filter (\<lambda>e. snd e = r) es)"

subsection \<open>The current bucket and matching\<close>

text \<open>
  \<open>categorizedEmojiIds[category][subcategory]\<close> for the two topmost titles of the stack:
  the list a matching record is appended to, \<open>None\<close> when one of the two reads is
  \<open>undefined\<close>.
\<close>

definition bucket :: "state \<Rightarrow> group list option" where
  "bucket st =
     (case obj_get (categorizedEmojiIds st) (stack_key (categoryStack st) 0) of
        None \<Rightarrow> None
      | Some sub \<Rightarrow> obj_get sub (stack_key (categoryStack st) 1))"

text \<open>Some identifier decodes to the normalized key of the record value \<open>v\<close>.\<close>

definition matches :: "emoji_ref obj \<Rightarrow> literal \<Rightarrow> bool" where
  "matches idMap v = (Literal (strip_selectors v) \<in> set (map snd idMap))"

subsection \<open>Coverage\<close>

text \<open>The normalized keys of the Emoji records.\<close>

fun emoji_keys :: "taxonomy_record list \<Rightarrow> literal list" where
  "emoji_keys [] = []"
| "emoji_keys (Emoji v # rs) = strip_selectors v # emoji_keys rs"
| "emoji_keys (r # rs) = emoji_keys rs"

text \<open>Some identifier has a literal that is the normalized key of no Emoji record.\<close>

definition unmatched :: "emoji_ref obj \<Rightarrow> taxonomy_record list \<Rightarrow> bool" where
  "unmatched idMap records =
     list_ex (\<lambda>e. case snd e of Literal l \<Rightarrow> l \<notin> set (emoji_keys records) | Custom u \<Rightarrow> False) idMap"

text \<open>The identifiers with a platform-specific value.\<close>

definition custom_ids :: "(string \<times> emoji_ref) list \<Rightarrow> string list" where
  "custom_ids es = map fst (filter (\<lambda>e. case snd e of Custom u \<Rightarrow> True | Literal l \<Rightarrow> False) es)"

text \<open>The identifiers of the groups that the keys of the Emoji records find in partition (a).\<close>

definition matched_ids :: "(literal \<times> group) list \<Rightarrow> taxonomy_record list \<Rightarrow> string set" where
  "matched_ids lit records =
     {i. \<exists>k g. k \<in> set (emoji_keys records) \<and> obj_get lit k = Some g \<and> i \<in> set g}"

subsection \<open>Pruning, as the specification words it\<close>

text \<open>
  Every subcategory with an empty list is removed, then every category left with no
  subcategory.
\<close>

definition pruned_sub :: "group list obj \<Rightarrow> group list obj" where
  "pruned_sub sub = filter (\<lambda>e. snd e \<noteq> []) sub"

definition pruned :: "taxonomy \<Rightarrow> taxonomy" where
  "pruned cats = filter (\<lambda>e. snd e \<noteq> []) (map (\<lambda>e. (fst e, pruned_sub (snd e))) cats)"

text \<open>The same, done only for the categories in \<open>S\<close>.\<close>

definition pruned_in :: "string set \<Rightarrow> taxonomy \<Rightarrow> taxonomy" where
  "pruned_in S cats =
     filter (\<lambda>e. \<not> (fst e \<in> S \<and> snd e = []))
       (map (\<lambda>e. if fst e \<in> S then (fst e, pruned_sub (snd e)) else e) cats)"

text \<open>No key occurs twice, in the taxonomy and in each of its categories.\<close>

definition wf_tax :: "taxonomy \<Rightarrow> bool" where
  "wf_tax cats = (distinct (map fst cats) \<and> list_all (\<lambda>e. distinct (map fst (snd e))) cats)"

subsection \<open>The synthetic category, as the specification words it\<close>

text \<open>The elements of a list in the order of their first occurrence.\<close>

function first_seen :: "'a list \<Rightarrow> 'a list" where
  "first_seen [] = []"
| "first_seen (x # xs) = x # first_seen (filter (\<lambda>y. y \<noteq> x) xs)"
  by pat_completeness auto
termination
  by (relation "measure length") (auto simp: less_Suc_eq_le)

text \<open>
  The order in which an object lists keys that were created in the order \<open>ks\<close>: array
  indices first, ascending, then the other keys as created.
\<close>

definition key_order :: "string list \<Rightarrow> string list" where
  "key_order ks =
     sort_key (\<lambda>k. case array_index k of Some n \<Rightarrow> n | None \<Rightarrow> 0)
       (filter (\<lambda>k. array_index k \<noteq> None) ks)
     @ filter (\<lambda>k. array_index k = None) ks"

text \<open>The grouping keys of the platform-specific identifiers, in the order of \<open>es\<close>.\<close>

definition custom_uris :: "(string \<times> emoji_ref) list \<Rightarrow> string list" where
  "custom_uris es = concat (map (\<lambda>e. case snd e of Custom u \<Rightarrow> [u] | Literal l \<Rightarrow> []) es)"

definition custom_groups :: "(string \<times> emoji_ref) list \<Rightarrow> group list" where
  "custom_groups es = map (\<lambda>u. ids_with (Custom u) es) (key_order (first_seen (custom_uris es)))"

text \<open>The identifiers of a category and of a taxonomy, and the titles of the Category records.\<close>

definition ids_of_sub :: "group list obj \<Rightarrow> string list" where
  "ids_of_sub sub = concat (concat (map snd sub))"

definition ids_of :: "taxonomy \<Rightarrow> string list" where
  "ids_of tax = concat (map (\<lambda>e. ids_of_sub (snd e)) tax)"

fun category_titles :: "taxonomy_record list \<Rightarrow> string list" where
  "category_titles [] = []"
| "category_titles (Category v # rs) = toTitleCase v # category_titles rs"
| "category_titles (r # rs) = category_titles rs"

text \<open>The identifiers of the groups that the Emoji records append, in their order.\<close>

fun appended :: "(literal \<times> group) list \<Rightarrow> taxonomy_record list \<Rightarrow> string list" where
  "appended lit [] = []"
| "appended lit (Emoji v # rs) =
     (case obj_get lit (strip_selectors v) of None \<Rightarrow> [] | Some g \<Rightarrow> g) @ appended lit rs"
| "appended lit (r # rs) = appended lit rs"

subsection \<open>Titles that are not reused, keys that match once\<close>

text \<open>
  No Category record has a title among \<open>cs\<close> or that of an earlier Category record, and
  within one category no Subcategory record has a title among \<open>ss\<close> or that of an
  earlier Subcategory record of the category.
\<close>

fun fresh_titles :: "string list \<Rightarrow> string list \<Rightarrow> taxonomy_record list \<Rightarrow> bool" where
  "fresh_titles cs ss [] = True"
| "fresh_titles cs ss (Category v # rs) =
     (toTitleCase v \<notin> set cs \<and> fresh_titles (toTitleCase v # cs) [] rs)"
| "fresh_titles cs ss (Subcategory v # rs) =
     (toTitleCase v \<notin> set ss \<and> fresh_titles cs (toTitleCase v # ss) rs)"
| "fresh_titles cs ss (Emoji v # rs) = fresh_titles cs ss rs"

text \<open>The normalized keys of the Emoji records that are the literal of some identifier.\<close>

definition matched_keys :: "emoji_ref obj \<Rightarrow> taxonomy_record list \<Rightarrow> literal list" where
  "matched_keys idMap records = filter (\<lambda>k. Literal k \<in> set (map snd idMap)) (emoji_keys records)"

text \<open>
  The keys of the taxonomy are among \<open>cs\<close>, and the keys of the current category among
  \<open>ss\<close>; with an empty stack the taxonomy is empty.
\<close>

definition titles_inv :: "state \<Rightarrow> string list \<Rightarrow> string list \<Rightarrow> bool" where
  "titles_inv st cs ss =
     (fst ` set (categorizedEmojiIds st) \<subseteq> set cs
      \<and> (case categoryStack st of
            [] \<Rightarrow> categorizedEmojiIds st = []
          | c # stack \<Rightarrow>
              (case obj_get (categorizedEmojiIds st) c of
                 None \<Rightarrow> True
               | Some sub \<Rightarrow> fst ` set sub \<subseteq> set ss)))"

subsection \<open>Decoding a locator, as the specification words it\<close>

text \<open>The trailing path component: what follows the last \<open>/\<close>.\<close>

definition trailing_component :: "string \<Rightarrow> string" where
  "trailing_component url = rev (takeWhile (\<lambda>c. c \<noteq> CHR ''/'') (rev url))"

text \<open>The text before the first occurrence of \<open>sep\<close>; the extension starts at the first \<open>.png\<close>.\<close>

fun before_first :: "string \<Rightarrow> string \<Rightarrow> string" where
  "before_first sep [] = []"
| "before_first sep (c # cs) = (if prefix sep (c # cs) then [] else c # before_first sep cs)"

definition strip_extension :: "string \<Rightarrow> string" where
  "strip_extension name = before_first ''.png'' name"

text \<open>The fields between the occurrences of one character, read from left to right.\<close>

fun fields_from :: "char \<Rightarrow> string \<Rightarrow> string \<Rightarrow> string list" where
  "fields_from sep field [] = [rev field]"
| "fields_from sep field (c # cs) =
     (if c = sep then rev field # fields_from sep [] cs else fields_from sep (c # field) cs)"

definition fields :: "char \<Rightarrow> string \<Rightarrow> string list" where
  "fields sep s = fields_from sep [] s"

text \<open>A hexadecimal code-point text, and the UTF-16 code units of a code point.\<close>

definition hex_text :: "string \<Rightarrow> bool" where
  "hex_text t = (t \<noteq> [] \<and> list_all is_hex t)"

definition utf16 :: "nat \<Rightarrow> literal" where
  "utf16 n = (if n < 0x10000 then [n]
              else [0xD800 + (n - 0x10000) div 0x400, 0xDC00 + (n - 0x10000) mod 0x400])"

definition decode_spec :: "string \<Rightarrow> error + emoji_ref" where
  "decode_spec url =
     (let stem = strip_extension (trailing_component url);
          texts = fields (CHR ''-'') stem
      in if sublist ''/unicode/'' url
         then (if list_all (\<lambda>t. hex_value t \<le> 0x10FFFF) texts
               then Inr (Literal (concat (map (\<lambda>t. utf16 (hex_value t)) texts)))
               else Inl RangeError)
         else Inr (Custom stem))"

section \<open>Properties\<close>

subsection \<open>toTitleCase\<close>

lemma squeeze_True: "squeeze True cs = squeeze False (dropWhile is_space cs)"
  by (induction cs) auto

lemma collapse_spaces_squeeze: "collapse_spaces s = squeeze False s"
  by (induction s rule: collapse_spaces.induct) (auto simp: squeeze_True)

lemma capitalize_True:
  "capitalize True cs = takeWhile is_alpha cs @ capitalize False (dropWhile is_alpha cs)"
  by (induction cs) auto

lemma capitalize_words_capitalize: "capitalize_words s = capitalize False s"
  by (induction s rule: capitalize_words.induct) (auto simp: capitalize_True)

text \<open>
  Claim C9: for every text, \<open>toTitleCase\<close> replaces each hyphen with a space, collapses
  every run of white space to a single space and upper-cases the first letter of each
  maximal run of letters, leaving every other character unchanged; it maps
  \<open>smileys-&-emotion\<close> to \<open>Smileys & Emotion\<close> and \<open>face-smiling\<close> to \<open>Face Smiling\<close>.
\<close>

theorem toTitleCase_spec:
  "toTitleCase s = title_case_spec s
   \<and> toTitleCase ''smileys-&-emotion'' = ''Smileys & Emotion''
   \<and> toTitleCase ''face-smiling'' = ''Face Smiling''"
proof -
  have "toTitleCase s = title_case_spec s"
    by (simp add: toTitleCase_def title_case_spec_def replace_hyphens_def
        collapse_spaces_squeeze capitalize_words_capitalize)
  moreover have "toTitleCase ''smileys-&-emotion'' = ''Smileys & Emotion''"
    by (simp add: toTitleCase_def replace_hyphens_def is_space_def is_alpha_def toUpperCase_def)
  moreover have "toTitleCase ''face-smiling'' = ''Face Smiling''"
    by (simp add: toTitleCase_def replace_hyphens_def is_space_def is_alpha_def toUpperCase_def)
  ultimately show ?thesis by blast
qed

theorem toTitleCase_spec_witness:
  "toTitleCase ''a - b--c d'' = title_case_spec ''a - b--c d'' \<and> toTitleCase ''a - b--c d'' = ''A B C D''"
  using toTitleCase_spec [of "''a - b--c d''"]
  by (simp add: title_case_spec_def is_space_def is_alpha_def toUpperCase_def)

lemma toUpperCase_upper: "is_alpha c \<Longrightarrow> is_upper (toUpperCase c)"
  unfolding is_alpha_def is_upper_def toUpperCase_def by (simp, elim disjE) simp_all

lemma is_upper_alpha: "is_upper c \<Longrightarrow> is_alpha c"
  by (auto simp: is_upper_def is_alpha_def)

lemma capitalize_first_letter_upper: "first_letter_upper (capitalize False s)"
proof (induction s)
  case Nil
  then show ?case by (simp add: first_letter_upper_def)
next
  case (Cons c s)
  show ?case
  proof (cases "is_alpha c")
    case True
    then show ?thesis
      using toUpperCase_upper[OF True] is_upper_alpha[of "toUpperCase c"]
      by (simp add: first_letter_upper_def)
  next
    case False
    then show ?thesis using Cons by (simp add: first_letter_upper_def)
  qed
qed

lemma toTitleCase_first_letter_upper: "first_letter_upper (toTitleCase s)"
  by (simp add: toTitleCase_def capitalize_words_capitalize capitalize_first_letter_upper)

lemma inherited_not_upper: "inherited k \<Longrightarrow> \<not> first_letter_upper k"
  unfolding inherited_def object_prototype_keys_def
  by (auto simp: first_letter_upper_def is_alpha_def is_upper_def)

lemma toTitleCase_not_inherited: "\<not> inherited (toTitleCase s)"
  using inherited_not_upper toTitleCase_first_letter_upper by blast

lemma undefined_not_inherited: "\<not> inherited ''undefined''"
  by (simp add: inherited_def object_prototype_keys_def)

lemma toTitleCase_not_undefined: "toTitleCase s \<noteq> ''undefined''"
proof
  assume "toTitleCase s = ''undefined''"
  then have "first_letter_upper ''undefined''"
    using toTitleCase_first_letter_upper[of s] by simp
  then show False by (simp add: first_letter_upper_def is_alpha_def is_upper_def)
qed

subsection \<open>Plain objects\<close>

lemma set_Object_entries: "set (Object_entries ob) = set ob"
  by (auto simp: Object_entries_def)

lemma mset_Object_entries: "mset (Object_entries ob) = mset ob"
  by (simp add: Object_entries_def)

lemma length_Object_keys: "length (Object_keys ob) = length ob"
  using mset_Object_entries[of ob] by (metis Object_keys_def length_map size_mset)

lemma Object_keys_Nil: "Object_keys ob = [] \<longleftrightarrow> ob = []"
  using length_Object_keys[of ob] by (metis length_0_conv)

lemma set_Object_keys: "set (Object_keys ob) = fst ` set ob"
  by (simp add: Object_keys_def set_Object_entries)

lemma mset_Object_keys: "mset (Object_keys ob) = mset (map fst ob)"
  by (metis Object_keys_def mset_Object_entries mset_map)

lemma distinct_Object_keys: "distinct (map fst ob) \<Longrightarrow> distinct (Object_keys ob)"
  using mset_Object_keys[of ob] by (metis mset_eq_imp_distinct_iff)

lemma obj_get_Nil [simp]: "obj_get [] k = None"
  by (simp add: obj_get_def)

lemma obj_get_set: "obj_get (obj_set ob k v) k' = (if k' = k then Some v else obj_get ob k')"
  by (simp add: obj_get_def obj_set_def update_conv')

lemma obj_get_delete: "obj_get (obj_delete ob k) k' = (if k' = k then None else obj_get ob k')"
  by (simp add: obj_get_def obj_delete_def delete_conv')

subsection \<open>Loops\<close>

lemma for_of_append:
  "for_of body st (xs @ ys) =
     (case for_of body st xs of Inl e \<Rightarrow> Inl e | Inr st' \<Rightarrow> for_of body st' ys)"
  by (induction xs arbitrary: st) (auto split: sum.splits)

lemma for_of_error:
  assumes "\<And>s x e. body s x = Inl e \<Longrightarrow> P e" and "for_of body st xs = Inl e"
  shows "P e"
  using assms(2) by (induction xs arbitrary: st) (auto split: sum.splits dest: assms(1))

lemma for_of_invariant:
  assumes "\<And>s x s'. I s \<Longrightarrow> body s x = Inr s' \<Longrightarrow> I s'" and "I st" and "for_of body st xs = Inr st'"
  shows "I st'"
  using assms(2,3) by (induction xs arbitrary: st) (auto split: sum.splits dest: assms(1))

subsection \<open>Errors of the stages\<close>

lemma codePoints_error: "codePoints ts = Inl e \<Longrightarrow> e = RangeError"
  by (induction ts arbitrary: e)
     (auto simp: fromCodePoint_def split: sum.splits option.splits if_splits)

lemma decode_error: "decode url = Inl e \<Longrightarrow> e \<noteq> UncategorizedEmoji"
  by (auto simp: decode_def file_stem_def split: sum.splits option.splits list.splits if_splits
      dest: codePoints_error)

lemma decode_entries_error: "decode_entries es = Inl e \<Longrightarrow> e \<noteq> UncategorizedEmoji"
  by (induction es arbitrary: e) (auto split: sum.splits dest: decode_error)

lemma getGithubEmojiIdMap_error: "getGithubEmojiIdMap json = Inl e \<Longrightarrow> e \<noteq> UncategorizedEmoji"
  by (auto simp: getGithubEmojiIdMap_def split: sum.splits dest: decode_entries_error)

lemma partition_entry_error: "partition_entry st x = Inl e \<Longrightarrow> e = TypeError"
  by (auto simp: partition_entry_def split: emoji_ref.splits if_splits)

lemma partition_ids_error: "partition_ids idMap = Inl e \<Longrightarrow> e = TypeError"
  unfolding partition_ids_def by (rule for_of_error[where P="\<lambda>e. e = TypeError"]) (auto dest: partition_entry_error)

lemma walk_record_error: "walk_record st r = Inl e \<Longrightarrow> e = TypeError"
  by (cases r) (auto simp: Let_def split: option.splits if_splits)

lemma walk_error: "walk st records = Inl e \<Longrightarrow> e = TypeError"
  unfolding walk_def by (rule for_of_error[where P="\<lambda>e. e = TypeError"]) (auto dest: walk_record_error)

lemma walk_append:
  "walk st (xs @ ys) = (case walk st xs of Inl e \<Rightarrow> Inl e | Inr st' \<Rightarrow> walk st' ys)"
  by (simp add: walk_def for_of_append split: sum.splits)

lemma walk_Cons:
  "walk st (r # rs) = (case walk_record st r of Inl e \<Rightarrow> Inl e | Inr st' \<Rightarrow> walk st' rs)"
  by (simp add: walk_def split: sum.splits)

subsection \<open>partition keeps taxonomy and stack\<close>

lemma partition_entry_keeps:
  "partition_entry st x = Inr st' \<Longrightarrow>
     categorizedEmojiIds st' = categorizedEmojiIds st \<and> categoryStack st' = categoryStack st"
  by (auto simp: partition_entry_def split: emoji_ref.splits if_splits)

lemma partition_ids_keeps:
  assumes "partition_ids idMap = Inr st"
  shows "categorizedEmojiIds st = [] \<and> categoryStack st = []"
proof -
  have "categorizedEmojiIds st = [] \<and> categoryStack st = []"
    using assms unfolding partition_ids_def
    by (rule for_of_invariant[where I="\<lambda>s. categorizedEmojiIds s = [] \<and> categoryStack s = []", rotated 2])
       (auto simp: initial_state_def dest: partition_entry_keeps)
  then show ?thesis .
qed

subsection \<open>A subcategory before any category\<close>

lemma walk_without_category:
  assumes "categorizedEmojiIds st = []" and "\<forall>r\<in>set pre. \<not> is_Category r"
  shows "walk st pre = Inl TypeError \<or> walk st pre = Inr st"
  using assms(2)
proof (induction pre)
  case Nil
  then show ?case by (simp add: walk_def)
next
  case (Cons r pre)
  have step: "walk_record st r = Inl TypeError \<or> walk_record st r = Inr st"
    using Cons.prems assms(1) by (cases r) (auto simp: Let_def split: option.splits)
  then show ?case using Cons by (auto simp: walk_Cons)
qed

lemma walk_subcategory_first:
  assumes "categorizedEmojiIds st = []" and "\<forall>r\<in>set pre. \<not> is_Category r"
  shows "walk st (pre @ Subcategory v # rest) = Inl TypeError"
proof -
  have "walk_record st (Subcategory v) = Inl TypeError"
    using assms(1) by (simp add: Let_def)
  then show ?thesis
    using walk_without_category[OF assms] by (auto simp: walk_append walk_Cons)
qed

text \<open>
  Claim C5: when a Subcategory record comes before any Category record, the function
  throws (a \<open>TypeError\<close> or an exception of decoding, never the coverage error) and
  returns no taxonomy.
\<close>

theorem subcategory_before_category_fails:
  assumes "\<forall>r\<in>set pre. \<not> is_Category r"
  shows "\<exists>e. getCategorizeGithubEmojiIds json (pre @ Subcategory v # rest) = Inl e
             \<and> e \<noteq> UncategorizedEmoji"
proof (cases "getGithubEmojiIdMap json")
  case (Inl e)
  then show ?thesis
    using getGithubEmojiIdMap_error[OF Inl] by (simp add: getCategorizeGithubEmojiIds_def)
next
  case (Inr idMap)
  show ?thesis
  proof (cases "partition_ids idMap")
    case (Inl e)
    then show ?thesis
      using Inr partition_ids_error[OF Inl] by (simp add: getCategorizeGithubEmojiIds_def)
  next
    case st: (Inr st)
    have "walk st (pre @ Subcategory v # rest) = Inl TypeError"
      using walk_subcategory_first partition_ids_keeps[OF st] assms by blast
    then show ?thesis
      using Inr st by (simp add: getCategorizeGithubEmojiIds_def)
  qed
qed

lemmas decode_eval = decode_def file_stem_def getLast_def parseInt16_def fromCodePoint_def
  is_hex_def hex_digit_def hex_value_def is_space_def

lemmas object_eval = Object_entries_def Object_keys_def Object_fromEntries_def array_index_def
  is_digit_def decimal_value_def hex_digit_def index_order_def obj_get_def obj_set_def obj_delete_def

lemmas partition_eval = partition_ids_def partition_entry_def initial_state_def push_id_def
  inherited_def inherited_literal_def object_prototype_keys_def code_units_def

lemmas walk_eval = walk_def Let_def strip_selectors_def stack_key_def toTitleCase_def
  replace_hyphens_def is_alpha_def toUpperCase_def is_space_def
  inherited_literal_def object_prototype_keys_def code_units_def

lemmas finish_eval = finish_def prune_def prune_category_def prune_subcategory_def add_custom_def

text \<open>A key that does not start with a digit is no array index: objects with such keys list them as created.\<close>

lemma array_index_nondigit: "\<not> is_digit c \<Longrightarrow> array_index (c # cs) = None"
  by (simp add: array_index_def)

lemma array_index_empty: "array_index [] = None"
  by (simp add: array_index_def)

lemma Object_entries_plain:
  "list_all (\<lambda>e. array_index (fst e) = None) ob \<Longrightarrow> Object_entries ob = ob"
  by (simp add: Object_entries_def list_all_iff filter_empty_conv filter_id_conv)

lemma Object_keys_plain:
  "list_all (\<lambda>e. array_index (fst e) = None) ob \<Longrightarrow> Object_keys ob = map fst ob"
  by (simp add: Object_keys_def Object_entries_plain)

lemmas plain_eval = Object_entries_plain Object_keys_plain Object_fromEntries_def
  array_index_nondigit array_index_empty is_digit_def obj_get_def obj_set_def obj_delete_def

theorem subcategory_before_category_fails_witness:
  "\<exists>e. getCategorizeGithubEmojiIds [(''relaxed'', ''https://x/unicode/263a.png'')]
         ([Emoji [0x263A]] @ Subcategory ''face-affection'' # [Category ''smileys-&-emotion'']) = Inl e
       \<and> e \<noteq> UncategorizedEmoji"
  by (rule subcategory_before_category_fails) simp

subsection \<open>The side tables\<close>

lemma obj_get_push_id:
  "obj_get (push_id m k i) k' =
     (if k' = k then Some ((case obj_get m k of None \<Rightarrow> [] | Some g \<Rightarrow> g) @ [i]) else obj_get m k')"
  by (simp add: push_id_def obj_get_set split: option.splits)

lemma partition_entry_Literal:
  assumes "partition_entry st (i, Literal l) = Inr st'"
  shows "emojiLiteralToGithubEmojiIdsMap st' = push_id (emojiLiteralToGithubEmojiIdsMap st) l i"
    and "githubSpecificEmojiUriToGithubEmojiIdsMap st' = githubSpecificEmojiUriToGithubEmojiIdsMap st"
    and "githubEmojiIdMap st' = githubEmojiIdMap st"
  using assms by (auto simp: partition_entry_def split: if_splits)

lemma partition_entry_Custom:
  assumes "partition_entry st (i, Custom u) = Inr st'"
  shows "emojiLiteralToGithubEmojiIdsMap st' = emojiLiteralToGithubEmojiIdsMap st"
    and "githubSpecificEmojiUriToGithubEmojiIdsMap st' = push_id (githubSpecificEmojiUriToGithubEmojiIdsMap st) u i"
    and "githubEmojiIdMap st' = obj_delete (githubEmojiIdMap st) i"
  using assms by (auto simp: partition_entry_def split: if_splits)

lemma for_of_partition_literal:
  assumes "for_of partition_entry st es = Inr st'"
  shows "obj_get (emojiLiteralToGithubEmojiIdsMap st') k =
           (if ids_with (Literal k) es = [] then obj_get (emojiLiteralToGithubEmojiIdsMap st) k
            else Some ((case obj_get (emojiLiteralToGithubEmojiIdsMap st) k of None \<Rightarrow> [] | Some g \<Rightarrow> g)
                        @ ids_with (Literal k) es))"
  using assms
proof (induction es arbitrary: st)
  case Nil
  then show ?case by (simp add: ids_with_def)
next
  case (Cons e es)
  obtain i r where e: "e = (i, r)" by (cases e)
  from Cons.prems obtain st1 where st1: "partition_entry st e = Inr st1"
    and rest: "for_of partition_entry st1 es = Inr st'"
    by (auto split: sum.splits)
  note IH = Cons.IH[OF rest]
  show ?case
  proof (cases r)
    case (Literal l)
    then show ?thesis
      using IH partition_entry_Literal(1)[OF st1[unfolded e Literal]]
      by (auto simp: e ids_with_def obj_get_push_id split: option.splits)
  next
    case (Custom u)
    then show ?thesis
      using IH partition_entry_Custom(1)[OF st1[unfolded e Custom]]
      by (auto simp: e ids_with_def)
  qed
qed

lemma partition_ids_literal:
  assumes "partition_ids idMap = Inr st"
  shows "obj_get (emojiLiteralToGithubEmojiIdsMap st) k =
           (if ids_with (Literal k) (Object_entries idMap) = [] then None
            else Some (ids_with (Literal k) (Object_entries idMap)))"
  using for_of_partition_literal[OF assms[unfolded partition_ids_def], of k]
  by (simp add: initial_state_def)

lemma ids_with_Nil: "ids_with r es = [] \<longleftrightarrow> (\<forall>i. (i, r) \<notin> set es)"
  by (auto simp: ids_with_def filter_empty_conv)

lemma set_ids_with: "set (ids_with r es) = {i. (i, r) \<in> set es}"
  by (auto simp: ids_with_def image_iff)

subsection \<open>walk keeps the side tables\<close>

lemma walk_record_keeps:
  "walk_record st r = Inr st' \<Longrightarrow>
     emojiLiteralToGithubEmojiIdsMap st' = emojiLiteralToGithubEmojiIdsMap st
     \<and> githubSpecificEmojiUriToGithubEmojiIdsMap st' = githubSpecificEmojiUriToGithubEmojiIdsMap st"
  by (cases r) (auto simp: Let_def split: option.splits if_splits)

lemma walk_keeps:
  assumes "walk st records = Inr st'"
  shows "emojiLiteralToGithubEmojiIdsMap st' = emojiLiteralToGithubEmojiIdsMap st
     \<and> githubSpecificEmojiUriToGithubEmojiIdsMap st' = githubSpecificEmojiUriToGithubEmojiIdsMap st"
  using assms unfolding walk_def
  by (rule for_of_invariant[where I="\<lambda>s. emojiLiteralToGithubEmojiIdsMap s = emojiLiteralToGithubEmojiIdsMap st
     \<and> githubSpecificEmojiUriToGithubEmojiIdsMap s = githubSpecificEmojiUriToGithubEmojiIdsMap st", rotated 2])
     (auto dest: walk_record_keeps)

subsection \<open>A matching record without a subcategory\<close>

lemma walk_record_no_bucket:
  assumes "bucket st = None" "\<not> is_Category r" "\<not> is_Subcategory r"
  shows "walk_record st r = Inl TypeError \<or> walk_record st r = Inr st"
  using assms by (cases r) (auto simp: bucket_def Let_def split: option.splits)

lemma walk_no_bucket:
  assumes "bucket st = None" and "\<forall>r\<in>set mid. \<not> is_Category r \<and> \<not> is_Subcategory r"
  shows "walk st mid = Inl TypeError \<or> walk st mid = Inr st"
  using assms(2)
proof (induction mid)
  case Nil
  then show ?case by (simp add: walk_def)
next
  case (Cons r mid)
  then show ?case
    using walk_record_no_bucket[OF assms(1), of r] by (auto simp: walk_Cons)
qed

lemma walk_record_match_no_bucket:
  assumes "bucket st = None" and "obj_get (emojiLiteralToGithubEmojiIdsMap st) (strip_selectors v) \<noteq> None"
  shows "walk_record st (Emoji v) = Inl TypeError"
  using assms by (auto simp: bucket_def Let_def split: option.splits)

lemma bucket_after_Category:
  assumes "walk_record st (Category c) = Inr st'"
  shows "bucket st' = None"
  using assms by (auto simp: bucket_def Let_def stack_key_def obj_get_set)

lemma partition_ids_matches:
  assumes "partition_ids idMap = Inr st" and "matches idMap v"
  shows "obj_get (emojiLiteralToGithubEmojiIdsMap st) (strip_selectors v) \<noteq> None"
  using assms partition_ids_literal[OF assms(1), of "strip_selectors v"]
  by (auto simp: matches_def ids_with_Nil set_Object_entries split: if_splits)

lemma walk_match_unfiled:
  assumes none: "(\<forall>r\<in>set p. \<not> is_Category r)
               \<or> (\<forall>r\<in>set (takeWhile (\<lambda>r. \<not> is_Category r) (rev p)). \<not> is_Subcategory r)"
    and cats: "categorizedEmojiIds st = []"
    and hit: "obj_get (emojiLiteralToGithubEmojiIdsMap st) (strip_selectors v) \<noteq> None"
  shows "walk st (p @ Emoji v # rest) = Inl TypeError"
proof (cases "\<forall>r\<in>set p. \<not> is_Category r")
  case True
  have "bucket st = None" using cats by (simp add: bucket_def)
  then have "walk_record st (Emoji v) = Inl TypeError"
    using hit walk_record_match_no_bucket by blast
  then show ?thesis
    using walk_without_category[OF cats True] by (auto simp: walk_append walk_Cons)
next
  case False
  then have "\<exists>r\<in>set p. is_Category r" by blast
  then obtain p1 r p2 where p: "p = p1 @ r # p2" and r: "is_Category r"
    and p2: "\<forall>x\<in>set p2. \<not> is_Category x"
    using split_list_last_prop[of p is_Category] by blast
  obtain c where c: "r = Category c" using r by (cases r) auto
  have "takeWhile (\<lambda>r. \<not> is_Category r) (rev p) = rev p2"
    using p2 r by (simp add: p takeWhile_tail)
  then have p2': "\<forall>x\<in>set p2. \<not> is_Category x \<and> \<not> is_Subcategory x"
    using none False p2 by auto
  show ?thesis
  proof (cases "walk st p1")
    case (Inl e)
    then show ?thesis using walk_error[OF Inl] by (simp add: p walk_append)
  next
    case (Inr s1)
    obtain s2 where s2: "walk_record s1 (Category c) = Inr s2"
      by (simp add: Let_def)
    have b: "bucket s2 = None" using bucket_after_Category[OF s2] .
    have lit: "emojiLiteralToGithubEmojiIdsMap s2 = emojiLiteralToGithubEmojiIdsMap st"
      using walk_keeps[OF Inr] walk_record_keeps[OF s2] by simp
    have last: "walk_record s2 (Emoji v) = Inl TypeError"
      using walk_record_match_no_bucket[OF b] hit lit by simp
    have "walk s2 (p2 @ Emoji v # rest) = Inl TypeError"
      using walk_no_bucket[OF b p2'] last by (auto simp: walk_append walk_Cons)
    then show ?thesis
      using Inr s2 by (simp add: p c walk_append walk_Cons)
  qed
qed

text \<open>
  Claim C10: when an Emoji record whose normalized key matches some identifier comes
  while the current category has seen no Subcategory record, or before any Category
  record at all, the function throws and returns no taxonomy; the exception is not the
  coverage error.
\<close>

theorem emoji_without_subcategory_fails:
  assumes "getGithubEmojiIdMap json = Inr idMap" and "matches idMap v"
    and "(\<forall>r\<in>set p. \<not> is_Category r)
         \<or> (\<forall>r\<in>set (takeWhile (\<lambda>r. \<not> is_Category r) (rev p)). \<not> is_Subcategory r)"
  shows "\<exists>e. getCategorizeGithubEmojiIds json (p @ Emoji v # rest) = Inl e \<and> e \<noteq> UncategorizedEmoji"
proof (cases "partition_ids idMap")
  case (Inl e)
  then show ?thesis
    using assms(1) partition_ids_error[OF Inl] by (simp add: getCategorizeGithubEmojiIds_def)
next
  case (Inr st)
  have "walk st (p @ Emoji v # rest) = Inl TypeError"
    using walk_match_unfiled[OF assms(3)] partition_ids_keeps[OF Inr]
      partition_ids_matches[OF Inr assms(2)] by blast
  then show ?thesis
    using assms(1) Inr by (simp add: getCategorizeGithubEmojiIds_def)
qed

theorem emoji_without_subcategory_fails_witness:
  "\<exists>e. getCategorizeGithubEmojiIds [(''relaxed'', ''https://x/unicode/263a.png'')]
         ([Category ''smileys-&-emotion'', Emoji [0x1F600]] @ Emoji [0x263A, 0xFE0F] # []) = Inl e
       \<and> e \<noteq> UncategorizedEmoji"
proof (rule emoji_without_subcategory_fails[where idMap="[(''relaxed'', Literal [0x263A])]"])
  show "getGithubEmojiIdMap [(''relaxed'', ''https://x/unicode/263a.png'')] = Inr [(''relaxed'', Literal [0x263A])]"
    by (simp add: getGithubEmojiIdMap_def decode_eval plain_eval)
  show "matches [(''relaxed'', Literal [0x263A])] [0x263A, 0xFE0F]"
    by (simp add: matches_def strip_selectors_def)
  show "(\<forall>r\<in>set [Category ''smileys-&-emotion'', Emoji [0x1F600]]. \<not> is_Category r)
      \<or> (\<forall>r\<in>set (takeWhile (\<lambda>r. \<not> is_Category r) (rev [Category ''smileys-&-emotion'', Emoji [0x1F600]])).
            \<not> is_Subcategory r)"
    by simp
qed

subsection \<open>A matching record\<close>

lemma obj_get_fold_delete:
  "obj_get (fold (\<lambda>i m. obj_delete m i) g m) k = (if k \<in> set g then None else obj_get m k)"
  by (induction g arbitrary: m) (auto simp: obj_get_delete)

lemma fold_delete_filter:
  "fold (\<lambda>i m. obj_delete m i) g m = filter (\<lambda>e. fst e \<notin> set g) m"
proof (induction g arbitrary: m)
  case Nil
  then show ?case by simp
next
  case (Cons i g)
  have "obj_delete m i = filter (\<lambda>e. fst e \<noteq> i) m"
    by (auto simp: obj_delete_def AList.delete_eq intro: filter_cong)
  then show ?case using Cons by (auto intro: filter_cong)
qed

lemma walk_record_match:
  assumes "obj_get (emojiLiteralToGithubEmojiIdsMap st) (strip_selectors v) = Some g"
    and "bucket st = Some groups"
  shows "\<exists>st'. walk_record st (Emoji v) = Inr st'
           \<and> bucket st' = Some (groups @ [g])
           \<and> githubEmojiIdMap st' = filter (\<lambda>e. fst e \<notin> set g) (githubEmojiIdMap st)"
  using assms
  by (auto simp: bucket_def Let_def obj_get_set fold_delete_filter split: option.splits)

text \<open>
  Claim C3, amended: when the normalized key of an Emoji record matches partition (a), the
  whole identifier group is appended as one element to the current bucket and the
  identifiers of the group are removed from the identifier map; partition (a) itself is
  left as it is, so \<open>n\<close> records with the same normalized key append the group \<open>n\<close>
  times.
\<close>

theorem matching_record_appends_group:
  assumes "obj_get (emojiLiteralToGithubEmojiIdsMap st) (strip_selectors v) = Some g"
    and "bucket st = Some groups"
  shows "\<exists>st'. walk st (replicate n (Emoji v)) = Inr st'
           \<and> bucket st' = Some (groups @ replicate n g)
           \<and> emojiLiteralToGithubEmojiIdsMap st' = emojiLiteralToGithubEmojiIdsMap st
           \<and> (0 < n \<longrightarrow> githubEmojiIdMap st' = filter (\<lambda>e. fst e \<notin> set g) (githubEmojiIdMap st))"
  using assms
proof (induction n arbitrary: st groups)
  case 0
  then show ?case by (simp add: walk_def)
next
  case (Suc n)
  obtain s1 where s1: "walk_record st (Emoji v) = Inr s1"
    and b1: "bucket s1 = Some (groups @ [g])"
    and m1: "githubEmojiIdMap s1 = filter (\<lambda>e. fst e \<notin> set g) (githubEmojiIdMap st)"
    using walk_record_match[OF Suc.prems] by blast
  have l1: "emojiLiteralToGithubEmojiIdsMap s1 = emojiLiteralToGithubEmojiIdsMap st"
    using walk_record_keeps[OF s1] by simp
  obtain st' where w: "walk s1 (replicate n (Emoji v)) = Inr st'"
    and b: "bucket st' = Some ((groups @ [g]) @ replicate n g)"
    and l: "emojiLiteralToGithubEmojiIdsMap st' = emojiLiteralToGithubEmojiIdsMap s1"
    and m: "0 < n \<longrightarrow> githubEmojiIdMap st' = filter (\<lambda>e. fst e \<notin> set g) (githubEmojiIdMap s1)"
    using Suc.IH[of s1 "groups @ [g]"] Suc.prems(1) l1 b1 by auto
  have "githubEmojiIdMap st' = filter (\<lambda>e. fst e \<notin> set g) (githubEmojiIdMap st)"
  proof (cases n)
    case 0
    then show ?thesis using w m1 by (simp add: walk_def)
  next
    case (Suc k)
    then show ?thesis using m m1 by simp
  qed
  then show ?case
    using s1 w b l l1 by (simp add: walk_Cons replicate_app_Cons_same)
qed

theorem matching_record_appends_group_witness:
  "\<exists>st'. walk \<lparr>githubEmojiIdMap = [(''smile'', Literal [0xD83D, 0xDE04])],
                 emojiLiteralToGithubEmojiIdsMap = [([0xD83D, 0xDE04], [''smile''])],
                 githubSpecificEmojiUriToGithubEmojiIdsMap = [],
                 categorizedEmojiIds = [(''Smileys & Emotion'', [(''Face Smiling'', [])])],
                 categoryStack = [''Smileys & Emotion'', ''Face Smiling'']\<rparr>
              (replicate 2 (Emoji [0xD83D, 0xDE04, 0xFE0F])) = Inr st'
         \<and> bucket st' = Some ([] @ replicate 2 [''smile''])
         \<and> emojiLiteralToGithubEmojiIdsMap st' = [([0xD83D, 0xDE04], [''smile''])]
         \<and> githubEmojiIdMap st' = []"
  using matching_record_appends_group[where n=2 and g="[''smile'']" and groups="[]"
      and v="[0xD83D, 0xDE04, 0xFE0F]"
      and st="\<lparr>githubEmojiIdMap = [(''smile'', Literal [0xD83D, 0xDE04])],
                 emojiLiteralToGithubEmojiIdsMap = [([0xD83D, 0xDE04], [''smile''])],
                 githubSpecificEmojiUriToGithubEmojiIdsMap = [],
                 categorizedEmojiIds = [(''Smileys & Emotion'', [(''Face Smiling'', [])])],
                 categoryStack = [''Smileys & Emotion'', ''Face Smiling'']\<rparr>"]
  by (simp add: bucket_def stack_key_def obj_get_def strip_selectors_def)

text \<open>
  The claim as stated fails: the key stays in partition (a), and a second record with the
  same key appends the group a second time.
\<close>

theorem repeated_key_counterexample:
  "getCategorizeGithubEmojiIds [(''smile'', ''https://x/unicode/1f604.png'')]
     [Category ''smileys-&-emotion'', Subcategory ''face-smiling'',
      Emoji [0xD83D, 0xDE04], Emoji [0xD83D, 0xDE04]]
   = Inr [(''Smileys & Emotion'', [(''Face Smiling'', [[''smile''], [''smile'']])])]"
  by (simp add: getCategorizeGithubEmojiIds_def getGithubEmojiIdMap_def decode_eval plain_eval
      partition_eval walk_eval finish_eval)

subsection \<open>The key of partition (a)\<close>

text \<open>
  Claim C2, amended: partition (a) is keyed by the decoded literal of each identifier as
  it is, without normalization; only the record's literal is normalized. The lookup of a
  record's normalized key finds exactly the identifiers whose decoded literal equals
  that key, in the order of enumeration.
\<close>

theorem partition_keyed_by_raw_literal:
  assumes "getGithubEmojiIdMap json = Inr idMap" and "partition_ids idMap = Inr st"
  shows "obj_get (emojiLiteralToGithubEmojiIdsMap st) (strip_selectors v) =
           (if ids_with (Literal (strip_selectors v)) (Object_entries idMap) = [] then None
            else Some (ids_with (Literal (strip_selectors v)) (Object_entries idMap)))"
  using partition_ids_literal[OF assms(2)] .

theorem partition_keyed_by_raw_literal_witness:
  "obj_get [([0x263A], [''relaxed'', ''smiling'']), ([0xD83D, 0xDE04], [''smile''])]
       (strip_selectors [0x263A, 0xFE0F]) = Some [''relaxed'', ''smiling'']"
proof -
  let ?json = "[(''relaxed'', ''https://x/unicode/263a.png''), (''smile'', ''https://x/unicode/1f604.png''),
                (''smiling'', ''https://x/unicode/263a.png'')]"
  let ?idMap = "[(''relaxed'', Literal [0x263A]), (''smile'', Literal [0xD83D, 0xDE04]),
                 (''smiling'', Literal [0x263A])]"
  let ?st = "\<lparr>githubEmojiIdMap = ?idMap,
               emojiLiteralToGithubEmojiIdsMap = [([0x263A], [''relaxed'', ''smiling'']), ([0xD83D, 0xDE04], [''smile''])],
               githubSpecificEmojiUriToGithubEmojiIdsMap = [], categorizedEmojiIds = [],
               categoryStack = []\<rparr>"
  have g: "getGithubEmojiIdMap ?json = Inr ?idMap"
    by (simp add: getGithubEmojiIdMap_def decode_eval plain_eval)
  have p: "partition_ids ?idMap = Inr ?st"
    by (simp add: partition_eval plain_eval)
  show ?thesis
    using partition_keyed_by_raw_literal[OF g p, of "[0x263A, 0xFE0F]"]
    by (simp add: ids_with_def strip_selectors_def plain_eval)
qed

text \<open>
  The claim as stated fails: the literal of \<open>263a-fe0f.png\<close> collapses to the key of the
  record, yet the lookup of that key does not find the identifier, and the coverage error
  is thrown.
\<close>

theorem raw_literal_key_counterexample:
  "decode ''https://x/unicode/263a-fe0f.png'' = Inr (Literal [0x263A, 0xFE0F])
   \<and> strip_selectors [0x263A, 0xFE0F] = [0x263A]
   \<and> getCategorizeGithubEmojiIds [(''relaxed'', ''https://x/unicode/263a-fe0f.png'')]
         [Category ''smileys-&-emotion'', Subcategory ''face-affection'', Emoji [0x263A, 0xFE0F]]
       = Inl UncategorizedEmoji"
  by (simp add: getCategorizeGithubEmojiIds_def getGithubEmojiIdMap_def decode_eval plain_eval
      partition_eval walk_eval finish_eval)

subsection \<open>Coverage\<close>

lemma distinct_obj_set: "distinct (map fst ob) \<Longrightarrow> distinct (map fst (obj_set ob k v))"
  by (simp add: obj_set_def distinct_update)

lemma distinct_fromEntries_aux:
  "distinct (map fst ob) \<Longrightarrow> distinct (map fst (foldl (\<lambda>ob e. obj_set ob (fst e) (snd e)) ob es))"
  by (induction es arbitrary: ob) (auto simp: distinct_obj_set)

lemma distinct_fromEntries: "distinct (map fst (Object_fromEntries es))"
  by (simp add: Object_fromEntries_def distinct_fromEntries_aux)

lemma distinct_getGithubEmojiIdMap:
  "getGithubEmojiIdMap json = Inr idMap \<Longrightarrow> distinct (map fst idMap)"
  by (auto simp: getGithubEmojiIdMap_def distinct_fromEntries split: sum.splits)

lemma for_of_partition_idMap:
  assumes "for_of partition_entry st es = Inr st'"
  shows "githubEmojiIdMap st' = filter (\<lambda>e. fst e \<notin> set (custom_ids es)) (githubEmojiIdMap st)"
  using assms
proof (induction es arbitrary: st)
  case Nil
  then show ?case by (simp add: custom_ids_def)
next
  case (Cons e es)
  obtain i r where e: "e = (i, r)" by (cases e)
  from Cons.prems obtain st1 where st1: "partition_entry st e = Inr st1"
    and rest: "for_of partition_entry st1 es = Inr st'"
    by (auto split: sum.splits)
  note IH = Cons.IH[OF rest]
  show ?case
  proof (cases r)
    case (Literal l)
    then show ?thesis
      using IH partition_entry_Literal(3)[OF st1[unfolded e Literal]]
      by (auto simp: e custom_ids_def)
  next
    case (Custom u)
    have "obj_delete (githubEmojiIdMap st) i = filter (\<lambda>e. fst e \<noteq> i) (githubEmojiIdMap st)"
      by (auto simp: obj_delete_def AList.delete_eq intro: filter_cong)
    then show ?thesis
      using IH partition_entry_Custom(3)[OF st1[unfolded e Custom]] Custom
      by (auto simp: e custom_ids_def intro: filter_cong)
  qed
qed

lemma partition_ids_idMap:
  assumes "partition_ids idMap = Inr st"
  shows "githubEmojiIdMap st = filter (\<lambda>e. fst e \<notin> set (custom_ids idMap)) idMap"
proof -
  have "set (custom_ids (Object_entries idMap)) = set (custom_ids idMap)"
    by (simp add: custom_ids_def set_Object_entries)
  then show ?thesis
    using for_of_partition_idMap[OF assms[unfolded partition_ids_def]]
    by (simp add: initial_state_def)
qed

lemma matched_ids_Nil: "matched_ids lit [] = {}"
  by (simp add: matched_ids_def)

lemma matched_ids_Cons:
  "matched_ids lit (r # rs) =
     (case r of Emoji v \<Rightarrow> (case obj_get lit (strip_selectors v) of None \<Rightarrow> {} | Some g \<Rightarrow> set g) | _ \<Rightarrow> {})
       \<union> matched_ids lit rs"
  by (cases r) (auto simp: matched_ids_def split: option.splits)

lemma walk_record_idMap:
  assumes "walk_record st r = Inr st'"
  shows "githubEmojiIdMap st' =
           filter (\<lambda>e. fst e \<notin> matched_ids (emojiLiteralToGithubEmojiIdsMap st) [r]) (githubEmojiIdMap st)"
  using assms
  by (cases r) (auto simp: Let_def matched_ids_Cons matched_ids_Nil fold_delete_filter
      split: option.splits if_splits)

lemma walk_idMap:
  assumes "walk st records = Inr st'"
  shows "githubEmojiIdMap st' =
           filter (\<lambda>e. fst e \<notin> matched_ids (emojiLiteralToGithubEmojiIdsMap st) records) (githubEmojiIdMap st)"
  using assms
proof (induction records arbitrary: st)
  case Nil
  then show ?case by (simp add: walk_def matched_ids_Nil)
next
  case (Cons r rs)
  from Cons.prems obtain s1 where s1: "walk_record st r = Inr s1" and rest: "walk s1 rs = Inr st'"
    by (auto simp: walk_Cons split: sum.splits)
  have l: "emojiLiteralToGithubEmojiIdsMap s1 = emojiLiteralToGithubEmojiIdsMap st"
    using walk_record_keeps[OF s1] by simp
  have "matched_ids (emojiLiteralToGithubEmojiIdsMap st) (r # rs)
      = matched_ids (emojiLiteralToGithubEmojiIdsMap st) [r] \<union> matched_ids (emojiLiteralToGithubEmojiIdsMap st) rs"
    by (simp add: matched_ids_Cons matched_ids_Nil)
  then show ?case
    using Cons.IH[OF rest] walk_record_idMap[OF s1] l by (auto intro: filter_cong)
qed

lemma remaining_iff_unmatched:
  assumes d: "distinct (map fst idMap)" and p: "partition_ids idMap = Inr st"
    and w: "walk st records = Inr st'"
  shows "githubEmojiIdMap st' \<noteq> [] \<longleftrightarrow> unmatched idMap records"
proof -
  let ?lit = "emojiLiteralToGithubEmojiIdsMap st"
  have g: "obj_get ?lit k = Some g \<Longrightarrow> set g = {i. (i, Literal k) \<in> set idMap}" for k g
    using partition_ids_literal[OF p, of k] set_ids_with[of "Literal k" "Object_entries idMap"]
    by (simp add: set_Object_entries split: if_splits)
  have g': "(i, Literal k) \<in> set idMap \<Longrightarrow> \<exists>g. obj_get ?lit k = Some g" for k i
    using partition_ids_literal[OF p, of k] ids_with_Nil[of "Literal k" "Object_entries idMap"]
    by (simp add: set_Object_entries split: if_splits)
  have m: "i \<in> matched_ids ?lit records \<longleftrightarrow> (\<exists>k\<in>set (emoji_keys records). (i, Literal k) \<in> set idMap)" for i
  proof
    assume "i \<in> matched_ids ?lit records"
    then obtain k g where "k \<in> set (emoji_keys records)" "obj_get ?lit k = Some g" "i \<in> set g"
      by (auto simp: matched_ids_def)
    then show "\<exists>k\<in>set (emoji_keys records). (i, Literal k) \<in> set idMap"
      using g by blast
  next
    assume "\<exists>k\<in>set (emoji_keys records). (i, Literal k) \<in> set idMap"
    then obtain k where k: "k \<in> set (emoji_keys records)" "(i, Literal k) \<in> set idMap" by blast
    then obtain gg where gg: "obj_get ?lit k = Some gg" using g' by blast
    then have "i \<in> set gg" using g[OF gg] k by simp
    then show "i \<in> matched_ids ?lit records"
      using k gg unfolding matched_ids_def by blast
  qed
  have c: "i \<in> set (custom_ids idMap) \<longleftrightarrow> (\<exists>u. (i, Custom u) \<in> set idMap)" for i
  proof
    assume "i \<in> set (custom_ids idMap)"
    then obtain r where "(i, r) \<in> set idMap" "case r of Custom u \<Rightarrow> True | Literal l \<Rightarrow> False"
      by (auto simp: custom_ids_def)
    then show "\<exists>u. (i, Custom u) \<in> set idMap"
      by (auto split: emoji_ref.splits)
  next
    assume "\<exists>u. (i, Custom u) \<in> set idMap"
    then obtain u where "(i, Custom u) \<in> set idMap" by blast
    then show "i \<in> set (custom_ids idMap)"
      by (auto simp: custom_ids_def image_iff intro!: bexI[of _ "(i, Custom u)"])
  qed
  have uniq: "(i, r) \<in> set idMap \<Longrightarrow> (i, r') \<in> set idMap \<Longrightarrow> r = r'" for i r r'
    using d by (meson eq_key_imp_eq_value)
  have final: "githubEmojiIdMap st' =
      filter (\<lambda>e. fst e \<notin> matched_ids ?lit records) (filter (\<lambda>e. fst e \<notin> set (custom_ids idMap)) idMap)"
    using walk_idMap[OF w] partition_ids_idMap[OF p] by simp
  show ?thesis
  proof
    assume "githubEmojiIdMap st' \<noteq> []"
    then obtain i r where ir: "(i, r) \<in> set idMap" and nc: "i \<notin> set (custom_ids idMap)"
      and nm: "i \<notin> matched_ids ?lit records"
      unfolding final by (auto simp: filter_empty_conv)
    obtain l where l: "r = Literal l" using ir nc c by (cases r) auto
    have "l \<notin> set (emoji_keys records)" using nm m ir l by blast
    then show "unmatched idMap records"
      using ir l by (auto simp: unmatched_def list_ex_iff intro!: bexI[of _ "(i, r)"])
  next
    assume "unmatched idMap records"
    then obtain i r where "(i, r) \<in> set idMap"
      and "case r of Literal l \<Rightarrow> l \<notin> set (emoji_keys records) | Custom u \<Rightarrow> False"
      by (auto simp: unmatched_def list_ex_iff)
    then obtain l where il: "(i, Literal l) \<in> set idMap" and nl: "l \<notin> set (emoji_keys records)"
      by (cases r) auto
    have "i \<notin> set (custom_ids idMap)" using c uniq il by blast
    moreover have "i \<notin> matched_ids ?lit records" using m uniq il nl by blast
    ultimately show "githubEmojiIdMap st' \<noteq> []"
      unfolding final using il by (auto simp: filter_empty_conv intro!: bexI[of _ "(i, Literal l)"])
  qed
qed

text \<open>
  Claim C4, amended: the coverage error is thrown only when some identifier with a literal
  is the key of no Emoji record. With such an identifier the function returns no
  taxonomy: it fails, and with the coverage error when the partition and the walk end
  without an exception; an exception thrown during the partition or the walk comes
  first and is the error of the run.
\<close>

theorem uncategorized_iff_unmatched:
  assumes "getGithubEmojiIdMap json = Inr idMap"
  shows "(getCategorizeGithubEmojiIds json records = Inl UncategorizedEmoji \<longrightarrow> unmatched idMap records)
       \<and> (unmatched idMap records \<longrightarrow> (\<exists>e. getCategorizeGithubEmojiIds json records = Inl e))
       \<and> (\<forall>st st'. partition_ids idMap = Inr st \<and> walk st records = Inr st' \<and> unmatched idMap records
             \<longrightarrow> getCategorizeGithubEmojiIds json records = Inl UncategorizedEmoji)"
proof (cases "partition_ids idMap")
  case (Inl e)
  then show ?thesis
    using assms partition_ids_error[OF Inl] by (simp add: getCategorizeGithubEmojiIds_def)
next
  case p: (Inr st)
  show ?thesis
  proof (cases "walk st records")
    case (Inl e)
    then show ?thesis
      using assms p walk_error[OF Inl] by (simp add: getCategorizeGithubEmojiIds_def)
  next
    case w: (Inr st')
    have r: "githubEmojiIdMap st' \<noteq> [] \<longleftrightarrow> unmatched idMap records"
      using remaining_iff_unmatched[OF distinct_getGithubEmojiIdMap[OF assms] p w] .
    have pe: "prune cats = Inl e \<Longrightarrow> e = TypeError" for cats e
    proof -
      assume a: "prune cats = Inl e"
      have s: "prune_subcategory s x = Inl e \<Longrightarrow> e = TypeError" for s x e
        by (auto simp: prune_subcategory_def split: option.splits)
      have c: "prune_category s x = Inl e \<Longrightarrow> e = TypeError" for s x e
        using for_of_error[where body=prune_subcategory and P="\<lambda>e. e = TypeError"] s
        by (auto simp: prune_category_def split: option.splits sum.splits)
      show "e = TypeError"
        using for_of_error[where body=prune_category and P="\<lambda>e. e = TypeError"] c a
        unfolding prune_def by blast
    qed
    show ?thesis
      using assms p w r pe
      by (auto simp: getCategorizeGithubEmojiIds_def finish_def Object_keys_Nil split: sum.splits)
  qed
qed

theorem uncategorized_iff_unmatched_witness:
  "unmatched [(''smile'', Literal [0xD83D, 0xDE04]), (''octocat'', Custom ''octocat'')]
       [Category ''smileys-&-emotion'', Subcategory ''face-smiling'', Emoji [0x263A, 0xFE0F]]
   \<and> getCategorizeGithubEmojiIds
         [(''smile'', ''https://x/unicode/1f604.png''), (''octocat'', ''https://x/emoji/octocat.png'')]
         [Category ''smileys-&-emotion'', Subcategory ''face-smiling'', Emoji [0x263A, 0xFE0F]]
       = Inl UncategorizedEmoji"
proof -
  let ?json = "[(''smile'', ''https://x/unicode/1f604.png''), (''octocat'', ''https://x/emoji/octocat.png'')]"
  let ?idMap = "[(''smile'', Literal [0xD83D, 0xDE04]), (''octocat'', Custom ''octocat'')]"
  let ?records = "[Category ''smileys-&-emotion'', Subcategory ''face-smiling'', Emoji [0x263A, 0xFE0F]]"
  let ?st = "\<lparr>githubEmojiIdMap = [(''smile'', Literal [0xD83D, 0xDE04])],
               emojiLiteralToGithubEmojiIdsMap = [([0xD83D, 0xDE04], [''smile''])],
               githubSpecificEmojiUriToGithubEmojiIdsMap = [(''octocat'', [''octocat''])],
               categorizedEmojiIds = [], categoryStack = []\<rparr>"
  let ?st' = "\<lparr>githubEmojiIdMap = [(''smile'', Literal [0xD83D, 0xDE04])],
               emojiLiteralToGithubEmojiIdsMap = [([0xD83D, 0xDE04], [''smile''])],
               githubSpecificEmojiUriToGithubEmojiIdsMap = [(''octocat'', [''octocat''])],
               categorizedEmojiIds = [(''Smileys & Emotion'', [(''Face Smiling'', [])])],
               categoryStack = [''Smileys & Emotion'', ''Face Smiling'']\<rparr>"
  have g: "getGithubEmojiIdMap ?json = Inr ?idMap"
    by (simp add: getGithubEmojiIdMap_def decode_eval plain_eval)
  have p: "partition_ids ?idMap = Inr ?st"
    by (simp add: partition_eval plain_eval)
  have w: "walk ?st ?records = Inr ?st'"
    by (simp add: walk_eval obj_get_def obj_set_def)
  have u: "unmatched ?idMap ?records"
    by (simp add: unmatched_def strip_selectors_def)
  show ?thesis
    using uncategorized_iff_unmatched[OF g, of ?records] p w u by blast
qed

text \<open>
  The claim as stated fails: with a Subcategory record before any Category record the walk
  throws a \<open>TypeError\<close> at the assignment to the bucket, before the coverage check is
  reached, although the identifier \<open>smile\<close> is matched by no record.
\<close>

theorem coverage_error_preempted_counterexample:
  "getGithubEmojiIdMap [(''smile'', ''https://x/unicode/1f604.png'')]
     = Inr [(''smile'', Literal [0xD83D, 0xDE04])]
   \<and> unmatched [(''smile'', Literal [0xD83D, 0xDE04])] [Subcategory ''face-smiling'']
   \<and> getCategorizeGithubEmojiIds [(''smile'', ''https://x/unicode/1f604.png'')]
         [Subcategory ''face-smiling''] = Inl TypeError
   \<and> getCategorizeGithubEmojiIds [(''smile'', ''https://x/unicode/1f604.png'')]
         [Subcategory ''face-smiling''] \<noteq> Inl UncategorizedEmoji"
proof -
  let ?json = "[(''smile'', ''https://x/unicode/1f604.png'')]"
  let ?idMap = "[(''smile'', Literal [0xD83D, 0xDE04])]"
  let ?st = "\<lparr>githubEmojiIdMap = [(''smile'', Literal [0xD83D, 0xDE04])],
               emojiLiteralToGithubEmojiIdsMap = [([0xD83D, 0xDE04], [''smile''])],
               githubSpecificEmojiUriToGithubEmojiIdsMap = [],
               categorizedEmojiIds = [], categoryStack = []\<rparr>"
  have g: "getGithubEmojiIdMap ?json = Inr ?idMap"
    by (simp add: getGithubEmojiIdMap_def decode_eval plain_eval)
  have p: "partition_ids ?idMap = Inr ?st"
    by (simp add: partition_eval plain_eval)
  have w: "walk ?st [Subcategory ''face-smiling''] = Inl TypeError"
    by (simp add: walk_eval obj_get_def obj_set_def)
  have u: "unmatched ?idMap [Subcategory ''face-smiling'']"
    by (simp add: unmatched_def)
  have c: "getCategorizeGithubEmojiIds ?json [Subcategory ''face-smiling''] = Inl TypeError"
    by (simp add: getCategorizeGithubEmojiIds_def g p w)
  show ?thesis using g u c by simp
qed

subsection \<open>Objects without repeated keys\<close>

lemma obj_delete_filter: "obj_delete ob k = filter (\<lambda>e. fst e \<noteq> k) ob"
  by (auto simp: obj_delete_def AList.delete_eq intro: filter_cong)

lemma obj_get_SomeD: "obj_get ob k = Some v \<Longrightarrow> (k, v) \<in> set ob"
  by (simp add: obj_get_def map_of_SomeD)

lemma obj_get_SomeI: "distinct (map fst ob) \<Longrightarrow> (k, v) \<in> set ob \<Longrightarrow> obj_get ob k = Some v"
  by (simp add: obj_get_def)

lemma obj_get_None_iff: "obj_get ob k = None \<longleftrightarrow> k \<notin> fst ` set ob"
  by (simp add: obj_get_def map_of_eq_None_iff)

lemma set_obj_set_subset: "set (obj_set ob k v) \<subseteq> insert (k, v) (set ob)"
  unfolding obj_set_def by (induction ob) auto

lemma keys_obj_set: "fst ` set (obj_set ob k v) = insert k (fst ` set ob)"
  by (simp add: obj_set_def dom_update)

lemma obj_set_present:
  "distinct (map fst ob) \<Longrightarrow> k \<in> fst ` set ob \<Longrightarrow>
     obj_set ob k v = map (\<lambda>e. if fst e = k then (k, v) else e) ob"
  unfolding obj_set_def
proof (induction ob)
  case Nil
  then show ?case by simp
next
  case (Cons p ob)
  show ?case
  proof (cases "fst p = k")
    case True
    then have "k \<notin> fst ` set ob" using Cons.prems(1) by auto
    then have "map (\<lambda>e. if fst e = k then (k, v) else e) ob = ob"
      by (induction ob) auto
    then show ?thesis using True by simp
  next
    case False
    then show ?thesis using Cons by auto
  qed
qed

lemma obj_set_absent: "k \<notin> fst ` set ob \<Longrightarrow> obj_set ob k v = ob @ [(k, v)]"
  unfolding obj_set_def by (induction ob) auto

subsection \<open>The pruning loops\<close>

lemma prune_subcategory_loop:
  assumes "distinct (map fst sub)" and "distinct ks" and "set ks \<subseteq> fst ` set sub"
  shows "for_of prune_subcategory sub ks
           = Inr (filter (\<lambda>e. \<not> (fst e \<in> set ks \<and> snd e = [])) sub)"
  using assms
proof (induction ks arbitrary: sub)
  case Nil
  then show ?case by simp
next
  case (Cons k ks)
  from Cons.prems(3) obtain g where g: "(k, g) \<in> set sub" by auto
  have get: "obj_get sub k = Some g"
    using obj_get_SomeI[OF Cons.prems(1) g] .
  have uniq: "e \<in> set sub \<Longrightarrow> fst e = k \<Longrightarrow> snd e = g" for e
    using Cons.prems(1) g by (metis eq_key_imp_eq_value prod.collapse)
  show ?case
  proof (cases "g = []")
    case True
    let ?sub1 = "filter (\<lambda>e. fst e \<noteq> k) sub"
    have step: "prune_subcategory sub k = Inr ?sub1"
      using get True by (simp add: prune_subcategory_def obj_delete_filter)
    have d1: "distinct (map fst ?sub1)"
      using Cons.prems(1) by (simp add: distinct_map_filter)
    have s1: "set ks \<subseteq> fst ` set ?sub1"
      using Cons.prems(2,3) by force
    have "filter (\<lambda>e. \<not> (fst e \<in> set ks \<and> snd e = [])) ?sub1
        = filter (\<lambda>e. \<not> (fst e \<in> set (k # ks) \<and> snd e = [])) sub"
      using uniq True by (auto intro: filter_cong)
    then show ?thesis
      using Cons.IH[OF d1 _ s1] Cons.prems(2) step by simp
  next
    case False
    have step: "prune_subcategory sub k = Inr sub"
      using get False by (simp add: prune_subcategory_def)
    have s1: "set ks \<subseteq> fst ` set sub" using Cons.prems(3) by simp
    have "filter (\<lambda>e. \<not> (fst e \<in> set ks \<and> snd e = [])) sub
        = filter (\<lambda>e. \<not> (fst e \<in> set (k # ks) \<and> snd e = [])) sub"
      using uniq False by (auto intro: filter_cong)
    then show ?thesis
      using Cons.IH[OF Cons.prems(1) _ s1] Cons.prems(2) step by simp
  qed
qed

lemma prune_subcategories:
  assumes "distinct (map fst sub)"
  shows "for_of prune_subcategory sub (Object_keys sub) = Inr (pruned_sub sub)"
proof -
  have "filter (\<lambda>e. \<not> (fst e \<in> set (Object_keys sub) \<and> snd e = [])) sub = pruned_sub sub"
    by (auto simp: pruned_sub_def set_Object_keys intro: filter_cong)
  then show ?thesis
    using prune_subcategory_loop[OF assms distinct_Object_keys[OF assms]]
    by (simp add: set_Object_keys)
qed

lemma pruned_in_single_aux:
  assumes "\<forall>e\<in>set cats. fst e = k \<longrightarrow> snd e = sub"
  shows "pruned_in {k} cats =
           (if pruned_sub sub = [] then filter (\<lambda>e. fst e \<noteq> k) cats
            else map (\<lambda>e. if fst e = k then (k, pruned_sub sub) else e) cats)"
  using assms by (induction cats) (auto simp: pruned_in_def)

lemma pruned_in_single:
  assumes "distinct (map fst cats)" and "(k, sub) \<in> set cats"
  shows "pruned_in {k} cats =
           (if pruned_sub sub = [] then filter (\<lambda>e. fst e \<noteq> k) cats
            else map (\<lambda>e. if fst e = k then (k, pruned_sub sub) else e) cats)"
proof -
  have "\<forall>e\<in>set cats. fst e = k \<longrightarrow> snd e = sub"
    using assms by (metis eq_key_imp_eq_value prod.collapse)
  then show ?thesis by (rule pruned_in_single_aux)
qed

lemma prune_category_step:
  assumes "wf_tax cats" and "k \<in> fst ` set cats"
  shows "prune_category cats k = Inr (pruned_in {k} cats)"
proof -
  have d: "distinct (map fst cats)" using assms(1) by (simp add: wf_tax_def)
  from assms(2) obtain sub where sub: "(k, sub) \<in> set cats" by auto
  have get: "obj_get cats k = Some sub" using obj_get_SomeI[OF d sub] .
  have ds: "distinct (map fst sub)"
    using assms(1) sub by (auto simp: wf_tax_def list_all_iff)
  have loop: "for_of prune_subcategory sub (Object_keys sub) = Inr (pruned_sub sub)"
    using prune_subcategories[OF ds] .
  show ?thesis
    using get loop pruned_in_single[OF d sub] obj_set_present[OF d assms(2)]
    by (simp add: prune_category_def Object_keys_Nil length_Object_keys obj_delete_filter)
qed

lemma pruned_in_insert:
  assumes "k \<notin> S"
  shows "pruned_in S (pruned_in {k} cats) = pruned_in (insert k S) cats"
  using assms unfolding pruned_in_def by (induction cats) auto

lemma wf_tax_pruned_in: "wf_tax cats \<Longrightarrow> wf_tax (pruned_in S cats)"
  unfolding wf_tax_def pruned_in_def pruned_sub_def
  by (induction cats) (auto simp: distinct_map_filter image_iff)

lemma keys_pruned_in: "k \<notin> S \<Longrightarrow> k \<in> fst ` set cats \<Longrightarrow> k \<in> fst ` set (pruned_in S cats)"
  unfolding pruned_in_def by (induction cats) (auto simp: image_iff)

lemma prune_category_loop:
  assumes "wf_tax cats" and "distinct ks" and "set ks \<subseteq> fst ` set cats"
  shows "for_of prune_category cats ks = Inr (pruned_in (set ks) cats)"
  using assms
proof (induction ks arbitrary: cats)
  case Nil
  have "pruned_in {} cats = cats" by (induction cats) (auto simp: pruned_in_def)
  then show ?case by simp
next
  case (Cons k ks)
  have step: "prune_category cats k = Inr (pruned_in {k} cats)"
    using prune_category_step[OF Cons.prems(1)] Cons.prems(3) by simp
  have sub: "set ks \<subseteq> fst ` set (pruned_in {k} cats)"
  proof
    fix x assume x: "x \<in> set ks"
    then have "x \<noteq> k" "x \<in> fst ` set cats" using Cons.prems(2,3) by auto
    then show "x \<in> fst ` set (pruned_in {k} cats)"
      using keys_pruned_in[of x "{k}" cats] by simp
  qed
  have "for_of prune_category (pruned_in {k} cats) ks = Inr (pruned_in (set ks) (pruned_in {k} cats))"
    using Cons.IH[OF wf_tax_pruned_in[OF Cons.prems(1)] _ sub] Cons.prems(2) by simp
  then show ?case
    using step pruned_in_insert[of k "set ks" cats] Cons.prems(2) by simp
qed

lemma prune_pruned:
  assumes "wf_tax cats"
  shows "prune cats = Inr (pruned cats)"
proof -
  have d: "distinct (map fst cats)" using assms by (simp add: wf_tax_def)
  have "pruned_in (fst ` set cats) cats = pruned cats"
    unfolding pruned_in_def pruned_def
    by (induction cats) (auto simp: image_iff intro!: filter_cong)
  then show ?thesis
    using prune_category_loop[OF assms distinct_Object_keys[OF d]]
    by (simp add: prune_def set_Object_keys)
qed

subsection \<open>The walk keeps keys unique\<close>

lemma wf_tax_obj_set:
  assumes "wf_tax cats" and "distinct (map fst sub)"
  shows "wf_tax (obj_set cats k sub)"
proof -
  have "list_all (\<lambda>e. distinct (map fst (snd e))) (obj_set cats k sub)"
    using assms set_obj_set_subset[of cats k sub]
    by (auto simp: wf_tax_def list_all_iff)
  then show ?thesis
    using assms(1) by (simp add: wf_tax_def distinct_obj_set)
qed

lemma wf_tax_sub:
  "wf_tax cats \<Longrightarrow> obj_get cats k = Some sub \<Longrightarrow> distinct (map fst sub)"
  using obj_get_SomeD[of cats k sub] by (fastforce simp: wf_tax_def list_all_iff)

lemma walk_record_wf:
  assumes "wf_tax (categorizedEmojiIds st)" and "walk_record st r = Inr st'"
  shows "wf_tax (categorizedEmojiIds st')"
proof (cases r)
  case (Category v)
  then show ?thesis
    using assms wf_tax_obj_set[OF assms(1), of "[]"] by (auto simp: Let_def)
next
  case (Subcategory v)
  then show ?thesis
    using assms
    by (auto simp: Let_def split: option.splits
        intro!: wf_tax_obj_set distinct_obj_set dest: wf_tax_sub)
next
  case (Emoji v)
  then show ?thesis
    using assms
    by (auto simp: Let_def split: option.splits if_splits
        intro!: wf_tax_obj_set distinct_obj_set dest: wf_tax_sub)
qed

lemma walk_wf:
  assumes "wf_tax (categorizedEmojiIds st)" and "walk st records = Inr st'"
  shows "wf_tax (categorizedEmojiIds st')"
  using assms(2) unfolding walk_def
  by (rule for_of_invariant[where I="\<lambda>s. wf_tax (categorizedEmojiIds s)", rotated 2])
     (auto simp: assms(1) dest: walk_record_wf)

lemma finish_result:
  assumes "wf_tax (categorizedEmojiIds st)"
  shows "finish st =
          (if githubEmojiIdMap st \<noteq> [] then Inl UncategorizedEmoji
           else Inr (add_custom (githubSpecificEmojiUriToGithubEmojiIdsMap st)
                       (pruned (categorizedEmojiIds st))))"
  by (simp add: finish_def prune_pruned[OF assms] length_Object_keys)

text \<open>What a returned taxonomy is made of.\<close>

lemma categorize_result:
  assumes "getCategorizeGithubEmojiIds json records = Inr tax"
  shows "\<exists>idMap st st'. getGithubEmojiIdMap json = Inr idMap
    \<and> partition_ids idMap = Inr st \<and> walk st records = Inr st'
    \<and> githubEmojiIdMap st' = [] \<and> wf_tax (categorizedEmojiIds st')
    \<and> tax = add_custom (githubSpecificEmojiUriToGithubEmojiIdsMap st') (pruned (categorizedEmojiIds st'))"
proof -
  from assms obtain idMap st st' where g: "getGithubEmojiIdMap json = Inr idMap"
    and p: "partition_ids idMap = Inr st" and w: "walk st records = Inr st'"
    and f: "finish st' = Inr tax"
    by (auto simp: getCategorizeGithubEmojiIds_def split: sum.splits)
  have wf: "wf_tax (categorizedEmojiIds st')"
    using walk_wf[OF _ w] partition_ids_keeps[OF p] by (simp add: wf_tax_def)
  show ?thesis
    using g p w wf f finish_result[OF wf] by (auto split: if_splits)
qed

subsection \<open>Pruning\<close>

lemma pruned_nonempty:
  "e \<in> set (pruned cats) \<Longrightarrow> snd e \<noteq> [] \<and> (\<forall>b\<in>set (snd e). snd b \<noteq> [])"
  by (auto simp: pruned_def pruned_sub_def)

text \<open>
  Claim C6: in every taxonomy the function returns, no category has an empty subcategory
  object and no subcategory an empty list of groups; this holds for the synthetic
  category as well.
\<close>

theorem no_empty_category_or_subcategory:
  assumes "getCategorizeGithubEmojiIds json records = Inr tax"
  shows "\<forall>e\<in>set (Object_entries tax). snd e \<noteq> [] \<and> (\<forall>b\<in>set (Object_entries (snd e)). snd b \<noteq> [])"
proof -
  from categorize_result[OF assms] obtain st' :: state where wf: "wf_tax (categorizedEmojiIds st')"
    and tax: "tax = add_custom (githubSpecificEmojiUriToGithubEmojiIdsMap st') (pruned (categorizedEmojiIds st'))"
    by auto
  let ?uri = "githubSpecificEmojiUriToGithubEmojiIdsMap st'"
  have "snd e \<noteq> [] \<and> (\<forall>b\<in>set (snd e). snd b \<noteq> [])" if e: "e \<in> set tax" for e
  proof (cases "?uri = []")
    case True
    then show ?thesis
      using e tax pruned_nonempty[of e "categorizedEmojiIds st'"]
      by (simp add: add_custom_def Object_keys_Nil length_Object_keys)
  next
    case False
    then have "e = (''GitHub Custom Emoji'', [('''', map snd (Object_entries ?uri))])
               \<or> e \<in> set (pruned (categorizedEmojiIds st'))"
      using e tax set_obj_set_subset[of "pruned (categorizedEmojiIds st')"]
      by (auto simp: add_custom_def length_Object_keys)
    moreover have "map snd (Object_entries ?uri) \<noteq> []"
      using False length_Object_keys[of ?uri] by (auto simp: Object_keys_def)
    ultimately show ?thesis using pruned_nonempty[of e "categorizedEmojiIds st'"] by auto
  qed
  then show ?thesis by (simp add: set_Object_entries)
qed

theorem no_empty_category_or_subcategory_witness:
  "list_all (\<lambda>e. snd e \<noteq> [] \<and> list_all (\<lambda>b. snd b \<noteq> []) (Object_entries (snd e)))
     (Object_entries [(''Smileys & Emotion'', [(''Face Smiling'', [[''smile'']])]),
                      (''GitHub Custom Emoji'', [('''', [[''octocat'']])])])"
proof -
  have "getCategorizeGithubEmojiIds
          [(''smile'', ''https://x/unicode/1f604.png''), (''octocat'', ''https://x/emoji/octocat.png'')]
          [Category ''smileys-&-emotion'', Subcategory ''face-smiling'', Emoji [0xD83D, 0xDE04],
           Subcategory ''face-affection'', Category ''people-&-body'', Subcategory ''hand-fingers-open'']
        = Inr [(''Smileys & Emotion'', [(''Face Smiling'', [[''smile'']])]),
               (''GitHub Custom Emoji'', [('''', [[''octocat'']])])]"
    by (simp add: getCategorizeGithubEmojiIds_def getGithubEmojiIdMap_def decode_eval plain_eval
        partition_eval walk_eval finish_eval)
  from no_empty_category_or_subcategory[OF this] show ?thesis
    by (simp only: list_all_iff)
qed

subsection \<open>Partition (b)\<close>

lemma set_first_seen: "set (first_seen xs) = set xs"
  by (induction xs rule: first_seen.induct) auto

lemma distinct_first_seen: "distinct (first_seen xs)"
  by (induction xs rule: first_seen.induct) (auto simp: set_first_seen)

lemma keys_push_id:
  "map fst (push_id m k i) = (if k \<in> fst ` set m then map fst m else map fst m @ [k])"
  by (auto simp: push_id_def obj_set_def obj_get_def update_keys split: option.splits)

lemma distinct_push_id: "distinct (map fst m) \<Longrightarrow> distinct (map fst (push_id m k i))"
  by (simp add: keys_push_id)

lemma for_of_partition_custom:
  assumes "for_of partition_entry st es = Inr st'"
  shows "obj_get (githubSpecificEmojiUriToGithubEmojiIdsMap st') k =
           (if ids_with (Custom k) es = [] then obj_get (githubSpecificEmojiUriToGithubEmojiIdsMap st) k
            else Some ((case obj_get (githubSpecificEmojiUriToGithubEmojiIdsMap st) k of None \<Rightarrow> [] | Some g \<Rightarrow> g)
                        @ ids_with (Custom k) es))"
  using assms
proof (induction es arbitrary: st)
  case Nil
  then show ?case by (simp add: ids_with_def)
next
  case (Cons e es)
  obtain i r where e: "e = (i, r)" by (cases e)
  from Cons.prems obtain st1 where st1: "partition_entry st e = Inr st1"
    and rest: "for_of partition_entry st1 es = Inr st'"
    by (auto split: sum.splits)
  note IH = Cons.IH[OF rest]
  show ?case
  proof (cases r)
    case (Literal l)
    then show ?thesis
      using IH partition_entry_Literal(2)[OF st1[unfolded e Literal]]
      by (auto simp: e ids_with_def)
  next
    case (Custom u)
    then show ?thesis
      using IH partition_entry_Custom(2)[OF st1[unfolded e Custom]]
      by (auto simp: e ids_with_def obj_get_push_id split: option.splits)
  qed
qed

lemma for_of_partition_uri_keys:
  assumes "for_of partition_entry st es = Inr st'"
  shows "map fst (githubSpecificEmojiUriToGithubEmojiIdsMap st') =
           map fst (githubSpecificEmojiUriToGithubEmojiIdsMap st)
           @ first_seen (filter (\<lambda>u. u \<notin> fst ` set (githubSpecificEmojiUriToGithubEmojiIdsMap st))
                           (custom_uris es))"
  using assms
proof (induction es arbitrary: st)
  case Nil
  then show ?case by (simp add: custom_uris_def)
next
  case (Cons e es)
  obtain i r where e: "e = (i, r)" by (cases e)
  from Cons.prems obtain st1 where st1: "partition_entry st e = Inr st1"
    and rest: "for_of partition_entry st1 es = Inr st'"
    by (auto split: sum.splits)
  note IH = Cons.IH[OF rest]
  let ?m = "githubSpecificEmojiUriToGithubEmojiIdsMap st"
  show ?case
  proof (cases r)
    case (Literal l)
    then show ?thesis
      using IH partition_entry_Literal(2)[OF st1[unfolded e Literal]]
      by (simp add: e custom_uris_def)
  next
    case (Custom u)
    have m1: "githubSpecificEmojiUriToGithubEmojiIdsMap st1 = push_id ?m u i"
      using partition_entry_Custom(2)[OF st1[unfolded e Custom]] .
    have cu: "custom_uris (e # es) = u # custom_uris es"
      by (simp add: e Custom custom_uris_def)
    show ?thesis
    proof (cases "u \<in> fst ` set ?m")
      case True
      then have k1: "map fst (push_id ?m u i) = map fst ?m" by (simp add: keys_push_id)
      have "set (map fst (push_id ?m u i)) = set (map fst ?m)"
        using k1 by simp
      then have "fst ` set (push_id ?m u i) = fst ` set ?m"
        by simp
      then show ?thesis using IH m1 k1 True cu by simp
    next
      case False
      then have k1: "map fst (push_id ?m u i) = map fst ?m @ [u]" by (simp add: keys_push_id)
      have "set (map fst (push_id ?m u i)) = set (map fst ?m @ [u])"
        using k1 by simp
      then have s1: "fst ` set (push_id ?m u i) = insert u (fst ` set ?m)"
        by simp
      have "filter (\<lambda>y. y \<noteq> u) (filter (\<lambda>x. x \<notin> fst ` set ?m) (custom_uris es))
          = filter (\<lambda>x. x \<notin> insert u (fst ` set ?m)) (custom_uris es)"
        by (auto intro: filter_cong)
      then show ?thesis using IH m1 k1 s1 False cu by simp
    qed
  qed
qed

lemma alist_eq_map:
  assumes "\<And>k v. (k, v) \<in> set al \<Longrightarrow> v = G k"
  shows "al = map (\<lambda>k. (k, G k)) (map fst al)"
  using assms by (induction al) auto

lemma partition_ids_uri:
  assumes "partition_ids idMap = Inr st"
  shows "githubSpecificEmojiUriToGithubEmojiIdsMap st =
           map (\<lambda>u. (u, ids_with (Custom u) (Object_entries idMap)))
             (first_seen (custom_uris (Object_entries idMap)))"
proof -
  let ?es = "Object_entries idMap"
  let ?m = "githubSpecificEmojiUriToGithubEmojiIdsMap st"
  have keys: "map fst ?m = first_seen (custom_uris ?es)"
    using for_of_partition_uri_keys[OF assms[unfolded partition_ids_def]]
    by (simp add: initial_state_def)
  have val: "obj_get ?m u = (if ids_with (Custom u) ?es = [] then None else Some (ids_with (Custom u) ?es))" for u
    using for_of_partition_custom[OF assms[unfolded partition_ids_def], of u]
    by (simp add: initial_state_def)
  have d: "distinct (map fst ?m)"
    using keys distinct_first_seen[of "custom_uris ?es"] by simp
  have "v = ids_with (Custom u) ?es" if "(u, v) \<in> set ?m" for u v
    using obj_get_SomeI[OF d that] val[of u] by (simp split: if_splits)
  then have "?m = map (\<lambda>u. (u, ids_with (Custom u) ?es)) (map fst ?m)"
    by (rule alist_eq_map)
  then show ?thesis using keys by simp
qed

lemma insort_key_map:
  "insort_key f (g x) (map g xs) = map g (insort_key (\<lambda>y. f (g y)) x xs)"
  by (induction xs) auto

lemma sort_key_map: "sort_key f (map g xs) = map g (sort_key (\<lambda>y. f (g y)) xs)"
  by (induction xs) (auto simp: insort_key_map)

lemma Object_entries_map:
  "Object_entries (map (\<lambda>k. (k, G k)) ks) = map (\<lambda>k. (k, G k)) (key_order ks)"
  by (simp add: Object_entries_def key_order_def filter_map comp_def sort_key_map index_order_def)

lemma partition_ids_custom_groups:
  assumes "partition_ids idMap = Inr st"
  shows "map snd (Object_entries (githubSpecificEmojiUriToGithubEmojiIdsMap st))
           = custom_groups (Object_entries idMap)"
  by (simp add: partition_ids_uri[OF assms] Object_entries_map custom_groups_def comp_def)

lemma custom_uris_Nil: "custom_uris es = [] \<longleftrightarrow> custom_ids es = []"
  by (induction es) (auto simp: custom_uris_def custom_ids_def split: emoji_ref.splits)

lemma partition_ids_uri_Nil:
  assumes "partition_ids idMap = Inr st"
  shows "githubSpecificEmojiUriToGithubEmojiIdsMap st = [] \<longleftrightarrow> custom_ids idMap = []"
proof -
  have "first_seen xs = [] \<longleftrightarrow> xs = []" for xs :: "string list"
    by (cases xs) auto
  moreover have "custom_ids (Object_entries idMap) = [] \<longleftrightarrow> custom_ids idMap = []"
    by (simp add: custom_ids_def filter_empty_conv set_Object_entries)
  ultimately show ?thesis
    by (simp add: partition_ids_uri[OF assms] custom_uris_Nil)
qed

subsection \<open>What the walk files\<close>

lemma ids_of_pruned: "ids_of (pruned cats) = ids_of cats"
proof -
  have s: "ids_of_sub (pruned_sub sub) = ids_of_sub sub" for sub
    unfolding ids_of_sub_def pruned_sub_def by (induction sub) auto
  have e: "ids_of_sub [] = []" by (simp add: ids_of_sub_def)
  have z: "pruned_sub sub = [] \<Longrightarrow> ids_of_sub sub = []" for sub
    using s[of sub] e by simp
  show ?thesis
    unfolding ids_of_def pruned_def by (induction cats) (auto simp: s z)
qed

lemma keys_pruned: "fst ` set (pruned cats) \<subseteq> fst ` set cats"
  by (force simp: pruned_def)

lemma set_ids_of: "set (ids_of tax) = (\<Union>e\<in>set tax. set (ids_of_sub (snd e)))"
  by (auto simp: ids_of_def)

lemma set_ids_of_sub: "set (ids_of_sub sub) = (\<Union>b\<in>set sub. set (concat (snd b)))"
  by (auto simp: ids_of_sub_def)

lemma set_ids_of_obj_set:
  "set (ids_of (obj_set cats k sub)) \<subseteq> set (ids_of cats) \<union> set (ids_of_sub sub)"
  using set_obj_set_subset[of cats k sub] unfolding set_ids_of by fastforce

lemma set_ids_of_sub_obj_set:
  "set (ids_of_sub (obj_set sub k gs)) \<subseteq> set (ids_of_sub sub) \<union> set (concat gs)"
  using set_obj_set_subset[of sub k gs] unfolding set_ids_of_sub by fastforce

lemma set_ids_of_sub_get: "obj_get cats k = Some sub \<Longrightarrow> set (ids_of_sub sub) \<subseteq> set (ids_of cats)"
  using obj_get_SomeD[of cats k sub] unfolding set_ids_of by fastforce

lemma set_concat_get: "obj_get sub k = Some gs \<Longrightarrow> set (concat gs) \<subseteq> set (ids_of_sub sub)"
  using obj_get_SomeD[of sub k gs] unfolding set_ids_of_sub by fastforce

lemma keys_obj_set_present: "obj_get ob k = Some v \<Longrightarrow> fst ` set (obj_set ob k v') = fst ` set ob"
  using obj_get_SomeD[of ob k v] by (force simp: keys_obj_set)

lemma walk_record_Subcategory:
  assumes "walk_record st (Subcategory v) = Inr st'"
  shows "\<exists>c sub. categoryStack st' \<noteq> [] \<and> hd (categoryStack st') = c
           \<and> (categoryStack st = [] \<or> hd (categoryStack st) = c)
           \<and> obj_get (categorizedEmojiIds st) c = Some sub
           \<and> categorizedEmojiIds st' = obj_set (categorizedEmojiIds st) c (obj_set sub (toTitleCase v) [])
           \<and> githubEmojiIdMap st' = githubEmojiIdMap st"
proof (cases "categoryStack st")
  case Nil
  then show ?thesis
    using assms by (auto simp: Let_def stack_key_def split: option.splits)
next
  case (Cons c cs)
  let ?popped = "if length (categoryStack st) > 1 then butlast (categoryStack st) else categoryStack st"
  obtain ps where ps: "?popped = c # ps"
    using Cons by (cases cs) auto
  then have k: "stack_key (?popped @ [toTitleCase v]) 0 = c"
    by (simp add: stack_key_def)
  show ?thesis
    using assms ps Cons unfolding walk_record.simps Let_def k
    by (auto split: option.splits)
qed

lemma walk_record_Emoji:
  assumes "walk_record st (Emoji v) = Inr st'"
  shows "(obj_get (emojiLiteralToGithubEmojiIdsMap st) (strip_selectors v) = None \<and> st' = st)
       \<or> (\<exists>g sub gs. obj_get (emojiLiteralToGithubEmojiIdsMap st) (strip_selectors v) = Some g
             \<and> obj_get (categorizedEmojiIds st) (stack_key (categoryStack st) 0) = Some sub
             \<and> obj_get sub (stack_key (categoryStack st) 1) = Some gs
             \<and> categorizedEmojiIds st' =
                 obj_set (categorizedEmojiIds st) (stack_key (categoryStack st) 0)
                   (obj_set sub (stack_key (categoryStack st) 1) (gs @ [g]))
             \<and> categoryStack st' = categoryStack st
             \<and> githubEmojiIdMap st' = filter (\<lambda>e. fst e \<notin> set g) (githubEmojiIdMap st))"
  using assms by (auto simp: Let_def fold_delete_filter split: option.splits if_splits)

lemma walk_record_keys:
  assumes "walk_record st r = Inr st'"
  shows "fst ` set (categorizedEmojiIds st') \<subseteq> fst ` set (categorizedEmojiIds st) \<union> set (category_titles [r])"
proof (cases r)
  case (Category v)
  have "categorizedEmojiIds st' = obj_set (categorizedEmojiIds st) (toTitleCase v) []"
    using assms Category by (auto simp: Let_def)
  then show ?thesis by (simp add: keys_obj_set Category)
next
  case (Subcategory v)
  from walk_record_Subcategory[OF assms[unfolded Subcategory]]
  obtain c sub where "obj_get (categorizedEmojiIds st) c = Some sub"
    and "categorizedEmojiIds st' = obj_set (categorizedEmojiIds st) c (obj_set sub (toTitleCase v) [])"
    by blast
  then show ?thesis by (simp add: keys_obj_set_present)
next
  case (Emoji v)
  from walk_record_Emoji[OF assms[unfolded Emoji]]
  consider "st' = st"
    | sub sub' where "obj_get (categorizedEmojiIds st) (stack_key (categoryStack st) 0) = Some sub"
        "categorizedEmojiIds st' = obj_set (categorizedEmojiIds st) (stack_key (categoryStack st) 0) sub'"
    by blast
  then show ?thesis
  proof cases
    case 1
    then show ?thesis by simp
  next
    case 2
    then show ?thesis by (simp add: keys_obj_set_present)
  qed
qed

lemma category_titles_Cons: "set (category_titles (r # rs)) = set (category_titles [r]) \<union> set (category_titles rs)"
  by (cases r) auto

lemma walk_keys:
  assumes "walk st records = Inr st'"
  shows "fst ` set (categorizedEmojiIds st') \<subseteq> fst ` set (categorizedEmojiIds st) \<union> set (category_titles records)"
  using assms
proof (induction records arbitrary: st)
  case Nil
  then show ?case by (simp add: walk_def)
next
  case (Cons r rs)
  from Cons.prems obtain s1 where s1: "walk_record st r = Inr s1" and rest: "walk s1 rs = Inr st'"
    by (auto simp: walk_Cons split: sum.splits)
  show ?case
    using Cons.IH[OF rest] walk_record_keys[OF s1] category_titles_Cons[of r rs] by blast
qed

lemma set_appended: "set (appended lit records) = matched_ids lit records"
proof (induction records)
  case Nil
  then show ?case by (simp add: matched_ids_Nil)
next
  case (Cons r rs)
  then show ?case by (cases r) (auto simp: matched_ids_Cons split: option.splits)
qed

lemma walk_record_ids:
  assumes "walk_record st r = Inr st'"
  shows "set (ids_of (categorizedEmojiIds st'))
           \<subseteq> set (ids_of (categorizedEmojiIds st)) \<union> set (appended (emojiLiteralToGithubEmojiIdsMap st) [r])"
proof (cases r)
  case (Category v)
  then show ?thesis
    using assms set_ids_of_obj_set[of "categorizedEmojiIds st" "toTitleCase v" "[]"]
    by (auto simp: Let_def ids_of_sub_def)
next
  case (Subcategory v)
  from assms Subcategory obtain c sub where c: "obj_get (categorizedEmojiIds st) c = Some sub"
    and st': "categorizedEmojiIds st' = obj_set (categorizedEmojiIds st) c (obj_set sub (toTitleCase v) [])"
    by (auto simp: Let_def split: option.splits)
  show ?thesis
    using set_ids_of_obj_set[of "categorizedEmojiIds st" c "obj_set sub (toTitleCase v) []"]
      set_ids_of_sub_obj_set[of sub "toTitleCase v" "[]"] set_ids_of_sub_get[OF c]
    unfolding st' by auto
next
  case (Emoji v)
  show ?thesis
  proof (cases "obj_get (emojiLiteralToGithubEmojiIdsMap st) (strip_selectors v)")
    case None
    then show ?thesis using assms Emoji by (auto simp: Let_def split: if_splits)
  next
    case (Some g)
    from assms Emoji Some obtain c sub s gs where c: "obj_get (categorizedEmojiIds st) c = Some sub"
      and s: "obj_get sub s = Some gs"
      and st': "categorizedEmojiIds st' = obj_set (categorizedEmojiIds st) c (obj_set sub s (gs @ [g]))"
      by (auto simp: Let_def split: option.splits)
    have a: "set (appended (emojiLiteralToGithubEmojiIdsMap st) [r]) = set g"
      by (simp add: Emoji Some)
    have b: "set (concat (gs @ [g])) \<subseteq> set (ids_of_sub sub) \<union> set g"
      using set_concat_get[OF s] by auto
    show ?thesis
      using set_ids_of_obj_set[of "categorizedEmojiIds st" c "obj_set sub s (gs @ [g])"]
        set_ids_of_sub_obj_set[of sub s "gs @ [g]"] set_ids_of_sub_get[OF c] b
      unfolding st' a by blast
  qed
qed

lemma appended_Cons: "appended lit (r # rs) = appended lit [r] @ appended lit rs"
  by (cases r) auto

lemma walk_ids_subset:
  assumes "walk st records = Inr st'"
  shows "set (ids_of (categorizedEmojiIds st'))
           \<subseteq> set (ids_of (categorizedEmojiIds st)) \<union> set (appended (emojiLiteralToGithubEmojiIdsMap st) records)"
  using assms
proof (induction records arbitrary: st)
  case Nil
  then show ?case by (simp add: walk_def)
next
  case (Cons r rs)
  from Cons.prems obtain s1 where s1: "walk_record st r = Inr s1" and rest: "walk s1 rs = Inr st'"
    by (auto simp: walk_Cons split: sum.splits)
  have l: "emojiLiteralToGithubEmojiIdsMap s1 = emojiLiteralToGithubEmojiIdsMap st"
    using walk_record_keeps[OF s1] by simp
  show ?case
    using Cons.IH[OF rest] walk_record_ids[OF s1] appended_Cons[of "emojiLiteralToGithubEmojiIdsMap st" r rs]
    unfolding l by auto
qed

lemma partition_group_ids:
  assumes "partition_ids idMap = Inr st"
    and "obj_get (emojiLiteralToGithubEmojiIdsMap st) k = Some g"
  shows "g = ids_with (Literal k) (Object_entries idMap)"
  using partition_ids_literal[OF assms(1), of k] assms(2) by (simp split: if_splits)

lemma custom_ids_iff: "i \<in> set (custom_ids es) \<longleftrightarrow> (\<exists>u. (i, Custom u) \<in> set es)"
proof
  assume "i \<in> set (custom_ids es)"
  then obtain r where "(i, r) \<in> set es" "case r of Custom u \<Rightarrow> True | Literal l \<Rightarrow> False"
    by (auto simp: custom_ids_def)
  then show "\<exists>u. (i, Custom u) \<in> set es"
    by (auto split: emoji_ref.splits)
next
  assume "\<exists>u. (i, Custom u) \<in> set es"
  then obtain u where "(i, Custom u) \<in> set es" by blast
  then show "i \<in> set (custom_ids es)"
    by (auto simp: custom_ids_def image_iff intro!: bexI[of _ "(i, Custom u)"])
qed

lemma matched_not_custom:
  assumes d: "distinct (map fst idMap)" and p: "partition_ids idMap = Inr st"
  shows "matched_ids (emojiLiteralToGithubEmojiIdsMap st) records \<inter> set (custom_ids idMap) = {}"
proof -
  have False if m: "i \<in> matched_ids (emojiLiteralToGithubEmojiIdsMap st) records"
    and c: "i \<in> set (custom_ids idMap)" for i
  proof -
    from m obtain k g where g: "obj_get (emojiLiteralToGithubEmojiIdsMap st) k = Some g" and i: "i \<in> set g"
      by (auto simp: matched_ids_def)
    have "i \<in> set (ids_with (Literal k) (Object_entries idMap))"
      using partition_group_ids[OF p g] i by simp
    then have "(i, Literal k) \<in> set idMap"
      by (simp add: set_ids_with set_Object_entries)
    moreover obtain u where "(i, Custom u) \<in> set idMap" using c custom_ids_iff by blast
    ultimately show False using d by (meson emoji_ref.distinct(1) eq_key_imp_eq_value)
  qed
  then show ?thesis by blast
qed

subsection \<open>The synthetic category\<close>

text \<open>
  Claim C7, amended: when the function returns a taxonomy and some identifier is
  platform-specific, the taxonomy has the synthetic category with the one subcategory of
  empty title; its list holds the groups of the platform-specific identifiers by grouping
  key, the grouping keys that are array indices first in ascending numeric order and
  then the other keys in the order of their first occurrence in the enumeration of the
  identifiers. No platform-specific identifier is under another category, and without
  platform-specific identifiers every category is the title of a Category record.
\<close>

theorem synthetic_category:
  assumes "getGithubEmojiIdMap json = Inr idMap"
    and "getCategorizeGithubEmojiIds json records = Inr tax"
  shows "(custom_ids idMap \<noteq> [] \<longrightarrow>
            obj_get tax ''GitHub Custom Emoji'' = Some [('''', custom_groups (Object_entries idMap))])
       \<and> (\<forall>e\<in>set tax. fst e \<noteq> ''GitHub Custom Emoji'' \<longrightarrow>
            set (ids_of_sub (snd e)) \<inter> set (custom_ids idMap) = {})
       \<and> (custom_ids idMap = [] \<longrightarrow> fst ` set tax \<subseteq> set (category_titles records))"
proof -
  from categorize_result[OF assms(2)] assms(1)
  obtain st st' :: state where p: "partition_ids idMap = Inr st" and w: "walk st records = Inr st'"
    and tax: "tax = add_custom (githubSpecificEmojiUriToGithubEmojiIdsMap st') (pruned (categorizedEmojiIds st'))"
    by auto
  let ?uri = "githubSpecificEmojiUriToGithubEmojiIdsMap st"
  let ?cats = "categorizedEmojiIds st'"
  have uri: "githubSpecificEmojiUriToGithubEmojiIdsMap st' = ?uri"
    using walk_keeps[OF w] by simp
  have d: "distinct (map fst idMap)" using distinct_getGithubEmojiIdMap[OF assms(1)] .
  have one: "obj_get tax ''GitHub Custom Emoji'' = Some [('''', custom_groups (Object_entries idMap))]"
    if "custom_ids idMap \<noteq> []"
  proof -
    have "?uri \<noteq> []" using that partition_ids_uri_Nil[OF p] by simp
    then show ?thesis
      unfolding tax uri
      by (simp add: add_custom_def length_Object_keys obj_get_set partition_ids_custom_groups[OF p])
  qed
  have two: "set (ids_of_sub (snd e)) \<inter> set (custom_ids idMap) = {}"
    if e: "e \<in> set tax" and n: "fst e \<noteq> ''GitHub Custom Emoji''" for e
  proof -
    have "e \<in> set (pruned ?cats)"
    proof (cases "length (Object_keys (githubSpecificEmojiUriToGithubEmojiIdsMap st')) \<noteq> 0")
      case True
      let ?v = "[('''', map snd (Object_entries (githubSpecificEmojiUriToGithubEmojiIdsMap st')))]"
      have "e \<in> insert (''GitHub Custom Emoji'', ?v) (set (pruned ?cats))"
        using e True set_obj_set_subset[of "pruned ?cats" "''GitHub Custom Emoji''" ?v]
        unfolding tax add_custom_def by auto
      then show ?thesis using n by auto
    next
      case False
      then show ?thesis using e unfolding tax add_custom_def by simp
    qed
    then have "set (ids_of_sub (snd e)) \<subseteq> set (ids_of (pruned ?cats))"
      unfolding set_ids_of by blast
    also have "\<dots> = set (ids_of ?cats)"
      by (simp add: ids_of_pruned)
    also have "\<dots> \<subseteq> set (appended (emojiLiteralToGithubEmojiIdsMap st) records)"
      using walk_ids_subset[OF w] partition_ids_keeps[OF p] by (simp add: ids_of_def)
    finally show ?thesis
      using matched_not_custom[OF d p, of records] by (auto simp: set_appended)
  qed
  have three: "fst ` set tax \<subseteq> set (category_titles records)" if "custom_ids idMap = []"
  proof -
    have "?uri = []" using that partition_ids_uri_Nil[OF p] by simp
    then have "tax = pruned ?cats"
      unfolding tax uri by (simp add: add_custom_def Object_keys_def Object_entries_def)
    then show ?thesis
      using keys_pruned[of ?cats] walk_keys[OF w] partition_ids_keeps[OF p] by auto
  qed
  show ?thesis using one two three by blast
qed

theorem synthetic_category_witness:
  "\<exists>tax. getCategorizeGithubEmojiIds
            [(''smile'', ''https://x/unicode/1f604.png''), (''octocat'', ''https://x/emoji/octocat.png''),
             (''shipit'', ''https://x/emoji/shipit.png''), (''squirrel'', ''https://x/emoji/shipit.png'')]
            [Category ''smileys-&-emotion'', Subcategory ''face-smiling'', Emoji [0xD83D, 0xDE04]] = Inr tax
         \<and> obj_get tax ''GitHub Custom Emoji'' = Some [('''', [[''octocat''], [''shipit'', ''squirrel'']])]
         \<and> set (ids_of_sub (snd (hd tax))) \<inter> {''octocat'', ''shipit'', ''squirrel''} = {}"
proof -
  let ?json = "[(''smile'', ''https://x/unicode/1f604.png''), (''octocat'', ''https://x/emoji/octocat.png''),
                (''shipit'', ''https://x/emoji/shipit.png''), (''squirrel'', ''https://x/emoji/shipit.png'')]"
  let ?idMap = "[(''smile'', Literal [0xD83D, 0xDE04]), (''octocat'', Custom ''octocat''),
                 (''shipit'', Custom ''shipit''), (''squirrel'', Custom ''shipit'')]"
  let ?records = "[Category ''smileys-&-emotion'', Subcategory ''face-smiling'', Emoji [0xD83D, 0xDE04]]"
  let ?tax = "[(''Smileys & Emotion'', [(''Face Smiling'', [[''smile'']])]),
               (''GitHub Custom Emoji'', [('''', [[''octocat''], [''shipit'', ''squirrel'']])])]"
  have g: "getGithubEmojiIdMap ?json = Inr ?idMap"
    by (simp add: getGithubEmojiIdMap_def decode_eval plain_eval)
  have c: "getCategorizeGithubEmojiIds ?json ?records = Inr ?tax"
    by (simp add: getCategorizeGithubEmojiIds_def g partition_eval plain_eval walk_eval finish_eval)
  have ids: "custom_ids ?idMap = [''octocat'', ''shipit'', ''squirrel'']"
    by (simp add: custom_ids_def)
  have groups: "custom_groups (Object_entries ?idMap) = [[''octocat''], [''shipit'', ''squirrel'']]"
    by (simp add: custom_groups_def custom_uris_def key_order_def ids_with_def plain_eval)
  from synthetic_category[OF g c]
  have "obj_get ?tax ''GitHub Custom Emoji'' = Some [('''', custom_groups (Object_entries ?idMap))]"
    and "\<forall>e\<in>set ?tax. fst e \<noteq> ''GitHub Custom Emoji'' \<longrightarrow>
            set (ids_of_sub (snd e)) \<inter> set (custom_ids ?idMap) = {}"
    unfolding ids by simp_all
  then show ?thesis
    using c unfolding groups ids by (intro exI[of _ ?tax]) simp
qed

text \<open>
  The claim as stated fails: the grouping key \<open>2\<close> is observed before the grouping key
  \<open>1\<close>, yet the group of \<open>1\<close> is listed first.
\<close>

theorem grouping_key_order_counterexample:
  "first_seen (custom_uris [(''a'', Custom ''2''), (''b'', Custom ''1'')]) = [''2'', ''1'']
   \<and> getCategorizeGithubEmojiIds [(''a'', ''https://x/emoji/2.png''), (''b'', ''https://x/emoji/1.png'')] []
       = Inr [(''GitHub Custom Emoji'', [('''', [[''b''], [''a'']])])]"
  by (simp add: custom_uris_def getCategorizeGithubEmojiIds_def getGithubEmojiIdMap_def decode_eval
      object_eval partition_eval walk_eval finish_eval)

subsection \<open>The identifiers of the input\<close>

lemma foldl_obj_set_distinct:
  "distinct (map fst (ob @ es)) \<Longrightarrow> foldl (\<lambda>ob e. obj_set ob (fst e) (snd e)) ob es = ob @ es"
proof (induction es arbitrary: ob)
  case Nil
  then show ?case by simp
next
  case (Cons e es)
  have "fst e \<notin> fst ` set ob" using Cons.prems by auto
  then have "obj_set ob (fst e) (snd e) = ob @ [e]" by (simp add: obj_set_absent)
  then show ?case using Cons.IH[of "ob @ [e]"] Cons.prems by simp
qed

lemma fromEntries_distinct: "distinct (map fst es) \<Longrightarrow> Object_fromEntries es = es"
  using foldl_obj_set_distinct[of "[]" es] by (simp add: Object_fromEntries_def)

lemma decode_entries_keys: "decode_entries es = Inr rs \<Longrightarrow> map fst rs = map fst es"
  by (induction es arbitrary: rs) (auto split: sum.splits)

lemma getGithubEmojiIdMap_keys:
  assumes "distinct (map fst json)" and "getGithubEmojiIdMap json = Inr idMap"
  shows "mset (map fst idMap) = mset (map fst json)"
proof -
  from assms(2) obtain es where es: "decode_entries (Object_entries json) = Inr es"
    and idMap: "idMap = Object_fromEntries es"
    by (auto simp: getGithubEmojiIdMap_def split: sum.splits)
  have k: "map fst es = Object_keys json"
    using decode_entries_keys[OF es] by (simp add: Object_keys_def)
  then have "distinct (map fst es)" using distinct_Object_keys[OF assms(1)] by simp
  then have "idMap = es" using idMap fromEntries_distinct by simp
  then show ?thesis using k mset_Object_keys[of json] by simp
qed

subsection \<open>Groups by key\<close>

lemma mset_filter_disjoint:
  assumes "\<And>x. x \<in> set xs \<Longrightarrow> \<not> (P x \<and> Q x)"
  shows "mset (map f (filter P xs)) + mset (map f (filter Q xs))
           = mset (map f (filter (\<lambda>x. P x \<or> Q x) xs))"
  using assms by (induction xs) auto

lemma mset_concat_ids_with:
  assumes "distinct ks" and "inj C"
  shows "mset (concat (map (\<lambda>k. ids_with (C k) es) ks))
           = mset (map fst (filter (\<lambda>e. \<exists>k\<in>set ks. snd e = C k) es))"
  using assms(1)
proof (induction ks)
  case Nil
  then show ?case by simp
next
  case (Cons k ks)
  have dis: "\<not> (snd e = C k \<and> (\<exists>k'\<in>set ks. snd e = C k'))" for e
    using Cons.prems assms(2) by (auto dest: injD)
  have "mset (concat (map (\<lambda>k. ids_with (C k) es) (k # ks)))
      = mset (map fst (filter (\<lambda>e. snd e = C k) es))
        + mset (map fst (filter (\<lambda>e. \<exists>k'\<in>set ks. snd e = C k') es))"
    using Cons by (simp add: ids_with_def)
  also have "\<dots> = mset (map fst (filter (\<lambda>e. snd e = C k \<or> (\<exists>k'\<in>set ks. snd e = C k')) es))"
    using dis by (intro mset_filter_disjoint) blast
  also have "\<dots> = mset (map fst (filter (\<lambda>e. \<exists>k'\<in>set (k # ks). snd e = C k') es))"
    by (auto intro!: arg_cong[where f=mset] arg_cong[where f="map fst"] filter_cong)
  finally show ?case .
qed

lemma concat_drop_empty: "concat (map G (filter (\<lambda>k. G k \<noteq> []) ks)) = concat (map G ks)"
  by (induction ks) auto

lemma appended_concat:
  "appended lit records
     = concat (map (\<lambda>k. case obj_get lit k of None \<Rightarrow> [] | Some g \<Rightarrow> g) (emoji_keys records))"
proof (induction records)
  case Nil
  then show ?case by simp
next
  case (Cons r rs)
  then show ?case by (cases r) auto
qed

lemma partition_group_or_empty:
  assumes "partition_ids idMap = Inr st"
  shows "(case obj_get (emojiLiteralToGithubEmojiIdsMap st) k of None \<Rightarrow> [] | Some g \<Rightarrow> g)
           = ids_with (Literal k) (Object_entries idMap)"
  using partition_ids_literal[OF assms, of k] by simp

lemma ids_with_nonempty: "ids_with r es \<noteq> [] \<longleftrightarrow> r \<in> set (map snd es)"
  by (auto simp: ids_with_def filter_empty_conv image_iff)

lemma literal_custom_split:
  "mset (map fst (filter (\<lambda>e. \<exists>l. snd e = Literal l) es)) + mset (custom_ids es) = mset (map fst es)"
  unfolding custom_ids_def by (induction es) (auto split: emoji_ref.splits)

lemma mset_appended:
  assumes p: "partition_ids idMap = Inr st"
    and dk: "distinct (matched_keys idMap records)"
    and all: "\<not> unmatched idMap records"
  shows "mset (appended (emojiLiteralToGithubEmojiIdsMap st) records) + mset (custom_ids idMap)
           = mset (map fst idMap)"
proof -
  let ?es = "Object_entries idMap"
  let ?G = "\<lambda>k. ids_with (Literal k) ?es"
  have mk: "matched_keys idMap records = filter (\<lambda>k. ?G k \<noteq> []) (emoji_keys records)"
    by (simp add: matched_keys_def ids_with_nonempty set_Object_entries)
  have "appended (emojiLiteralToGithubEmojiIdsMap st) records = concat (map ?G (emoji_keys records))"
    by (simp add: appended_concat partition_group_or_empty[OF p])
  also have "\<dots> = concat (map ?G (matched_keys idMap records))"
    unfolding mk by (simp add: concat_drop_empty)
  finally have a: "mset (appended (emojiLiteralToGithubEmojiIdsMap st) records)
      = mset (map fst (filter (\<lambda>e. \<exists>k\<in>set (matched_keys idMap records). snd e = Literal k) ?es))"
    using mset_concat_ids_with[OF dk, of Literal ?es] by (simp add: inj_def)
  have "(\<exists>k\<in>set (matched_keys idMap records). snd e = Literal k) \<longleftrightarrow> (\<exists>l. snd e = Literal l)"
    if e: "e \<in> set ?es" for e
  proof
    assume "\<exists>l. snd e = Literal l"
    then obtain l where l: "snd e = Literal l" by blast
    have "e \<in> set idMap" using e by (simp add: set_Object_entries)
    then have "l \<in> set (emoji_keys records)"
      using all l by (auto simp: unmatched_def list_ex_iff)
    moreover have "Literal l \<in> set (map snd idMap)"
      using \<open>e \<in> set idMap\<close> l by (force simp: image_iff)
    ultimately show "\<exists>k\<in>set (matched_keys idMap records). snd e = Literal k"
      using l by (auto simp: matched_keys_def)
  qed blast
  then have "filter (\<lambda>e. \<exists>k\<in>set (matched_keys idMap records). snd e = Literal k) ?es
           = filter (\<lambda>e. \<exists>l. snd e = Literal l) ?es"
    by (intro filter_cong) auto
  then have "mset (appended (emojiLiteralToGithubEmojiIdsMap st) records) + mset (custom_ids ?es)
           = mset (map fst ?es)"
    using a literal_custom_split[of ?es] by simp
  moreover have "mset (custom_ids ?es) = mset (custom_ids idMap)"
    by (simp add: custom_ids_def mset_Object_entries)
  moreover have "mset (map fst ?es) = mset (map fst idMap)"
    by (simp add: mset_Object_entries)
  ultimately show ?thesis by simp
qed

lemma mset_concat_sum: "mset (concat xs) = sum_mset (image_mset mset (mset xs))"
  by (induction xs) auto

lemma mset_concat_cong: "mset xs = mset ys \<Longrightarrow> mset (concat xs) = mset (concat ys)"
  by (simp add: mset_concat_sum)

lemma set_custom_uris: "set (custom_uris es) = {u. Custom u \<in> snd ` set es}"
proof (induction es)
  case Nil
  then show ?case by (simp add: custom_uris_def)
next
  case (Cons e es)
  have "custom_uris (e # es) = (case snd e of Custom u \<Rightarrow> [u] | Literal l \<Rightarrow> []) @ custom_uris es"
    by (simp add: custom_uris_def)
  then show ?case using Cons by (cases "snd e") auto
qed

lemma mset_custom_groups:
  assumes "partition_ids idMap = Inr st"
  shows "mset (concat (map snd (Object_entries (githubSpecificEmojiUriToGithubEmojiIdsMap st))))
           = mset (custom_ids idMap)"
proof -
  let ?es = "Object_entries idMap"
  let ?m = "githubSpecificEmojiUriToGithubEmojiIdsMap st"
  have "mset (concat (map snd (Object_entries ?m))) = mset (concat (map snd ?m))"
    by (rule mset_concat_cong) (simp add: mset_Object_entries)
  also have "\<dots> = mset (concat (map (\<lambda>u. ids_with (Custom u) ?es) (first_seen (custom_uris ?es))))"
    by (simp add: partition_ids_uri[OF assms] comp_def)
  also have "\<dots> = mset (map fst (filter (\<lambda>e. \<exists>u\<in>set (first_seen (custom_uris ?es)). snd e = Custom u) ?es))"
    using mset_concat_ids_with[OF distinct_first_seen, of Custom ?es] by (simp add: inj_def)
  also have "\<dots> = mset (custom_ids ?es)"
  proof -
    have "(\<exists>u\<in>set (custom_uris ?es). snd e = Custom u)
            \<longleftrightarrow> (case snd e of Custom u \<Rightarrow> True | Literal l \<Rightarrow> False)" if "e \<in> set ?es" for e
      using that by (cases "snd e") (force simp: set_custom_uris image_iff)+
    then have "filter (\<lambda>e. \<exists>u\<in>set (first_seen (custom_uris ?es)). snd e = Custom u) ?es
             = filter (\<lambda>e. case snd e of Custom u \<Rightarrow> True | Literal l \<Rightarrow> False) ?es"
      unfolding set_first_seen by (intro filter_cong) auto
    then show ?thesis by (simp add: custom_ids_def)
  qed
  also have "\<dots> = mset (custom_ids idMap)"
    by (simp add: custom_ids_def mset_Object_entries)
  finally show ?thesis .
qed

subsection \<open>No group is lost when titles are not reused\<close>

lemma mset_ids_of_obj_set:
  assumes "obj_get cats c = Some sub"
  shows "mset (ids_of (obj_set cats c sub')) + mset (ids_of_sub sub)
           = mset (ids_of cats) + mset (ids_of_sub sub')"
  using assms unfolding obj_get_def obj_set_def ids_of_def
  by (induction cats) (auto split: if_splits)

lemma mset_ids_of_sub_obj_set:
  assumes "obj_get sub s = Some gs"
  shows "mset (ids_of_sub (obj_set sub s gs')) + mset (concat gs)
           = mset (ids_of_sub sub) + mset (concat gs')"
  using assms unfolding obj_get_def obj_set_def ids_of_sub_def
  by (induction sub) (auto split: if_splits)

lemma ids_of_sub_new: "k \<notin> fst ` set sub \<Longrightarrow> ids_of_sub (obj_set sub k []) = ids_of_sub sub"
  by (simp add: obj_set_absent ids_of_sub_def)

lemma ids_of_new: "k \<notin> fst ` set cats \<Longrightarrow> ids_of (obj_set cats k []) = ids_of cats"
  by (simp add: obj_set_absent ids_of_def ids_of_sub_def)

lemma stack_key_hd: "stack \<noteq> [] \<Longrightarrow> stack_key stack 0 = hd stack"
  by (cases stack) (auto simp: stack_key_def)

lemma titles_inv_get:
  assumes "titles_inv st cs ss" and "obj_get (categorizedEmojiIds st) c = Some sub"
    and "categoryStack st = [] \<or> hd (categoryStack st) = c"
  shows "categoryStack st \<noteq> [] \<and> hd (categoryStack st) = c \<and> fst ` set sub \<subseteq> set ss"
proof (cases "categoryStack st")
  case Nil
  then show ?thesis using assms by (simp add: titles_inv_def)
next
  case (Cons c' stack)
  then show ?thesis using assms by (auto simp: titles_inv_def)
qed

lemma titles_inv_update:
  assumes "titles_inv st cs ss" and "categoryStack st' = c # stack'"
    and "obj_get (categorizedEmojiIds st) c = Some sub"
    and "categorizedEmojiIds st' = obj_set (categorizedEmojiIds st) c sub'"
    and "fst ` set sub' \<subseteq> set ss'"
  shows "titles_inv st' cs ss'"
  using assms(1,5) unfolding titles_inv_def assms(2,4)
  by (simp add: keys_obj_set_present[OF assms(3)] obj_get_set)

lemma walk_record_mset:
  assumes w: "walk_record st r = Inr st'"
    and f: "fresh_titles cs ss [r]"
    and inv: "titles_inv st cs ss"
  shows "mset (ids_of (categorizedEmojiIds st'))
           = mset (ids_of (categorizedEmojiIds st)) + mset (appended (emojiLiteralToGithubEmojiIdsMap st) [r])
       \<and> (case r of
            Category v \<Rightarrow> titles_inv st' (toTitleCase v # cs) []
          | Subcategory v \<Rightarrow> titles_inv st' cs (toTitleCase v # ss)
          | Emoji v \<Rightarrow> titles_inv st' cs ss)"
proof (cases r)
  case (Category v)
  let ?t = "toTitleCase v"
  have st': "categorizedEmojiIds st' = obj_set (categorizedEmojiIds st) ?t []"
    and stack: "categoryStack st' = [?t]"
    using w Category by (auto simp: Let_def)
  have new: "?t \<notin> fst ` set (categorizedEmojiIds st)"
    using f inv Category by (auto simp: titles_inv_def)
  have "titles_inv st' (?t # cs) []"
    using inv unfolding titles_inv_def st' stack
    by (auto simp: keys_obj_set obj_get_set)
  then show ?thesis
    using new by (simp add: Category st' ids_of_new)
next
  case (Subcategory v)
  let ?t = "toTitleCase v"
  from walk_record_Subcategory[OF w[unfolded Subcategory]]
  obtain c sub where stack: "categoryStack st' \<noteq> []" "hd (categoryStack st') = c"
    and old: "categoryStack st = [] \<or> hd (categoryStack st) = c"
    and get: "obj_get (categorizedEmojiIds st) c = Some sub"
    and st': "categorizedEmojiIds st' = obj_set (categorizedEmojiIds st) c (obj_set sub ?t [])"
    by blast
  have keys: "fst ` set sub \<subseteq> set ss"
    using titles_inv_get[OF inv get old] by simp
  then have new: "?t \<notin> fst ` set sub"
    using f Subcategory by auto
  have "mset (ids_of (categorizedEmojiIds st')) = mset (ids_of (categorizedEmojiIds st))"
    using mset_ids_of_obj_set[OF get, of "obj_set sub ?t []"] ids_of_sub_new[OF new]
    unfolding st' by simp
  moreover have "titles_inv st' cs (?t # ss)"
  proof -
    obtain stack' where s: "categoryStack st' = c # stack'"
      using stack by (cases "categoryStack st'") auto
    have "fst ` set (obj_set sub ?t []) \<subseteq> set (?t # ss)"
      using keys by (auto simp: keys_obj_set)
    then show ?thesis
      using titles_inv_update[OF inv s get st'] by simp
  qed
  ultimately show ?thesis by (simp add: Subcategory)
next
  case (Emoji v)
  from walk_record_Emoji[OF w[unfolded Emoji]]
  show ?thesis
  proof (elim disjE conjE exE)
    assume "obj_get (emojiLiteralToGithubEmojiIdsMap st) (strip_selectors v) = None" "st' = st"
    then show ?thesis using inv by (simp add: Emoji)
  next
    fix g sub gs
    let ?c = "stack_key (categoryStack st) 0"
    let ?s = "stack_key (categoryStack st) 1"
    assume g: "obj_get (emojiLiteralToGithubEmojiIdsMap st) (strip_selectors v) = Some g"
      and get: "obj_get (categorizedEmojiIds st) ?c = Some sub"
      and gs: "obj_get sub ?s = Some gs"
      and st': "categorizedEmojiIds st' = obj_set (categorizedEmojiIds st) ?c (obj_set sub ?s (gs @ [g]))"
      and stack: "categoryStack st' = categoryStack st"
    have ne: "categoryStack st \<noteq> []"
    proof
      assume "categoryStack st = []"
      then have "categorizedEmojiIds st = []" using inv by (simp add: titles_inv_def)
      then show False using get by simp
    qed
    then have c: "?c = hd (categoryStack st)" by (rule stack_key_hd)
    have keys: "fst ` set sub \<subseteq> set ss"
      using titles_inv_get[OF inv get] c by simp
    have "mset (ids_of_sub (obj_set sub ?s (gs @ [g]))) = mset (ids_of_sub sub) + mset g"
      using mset_ids_of_sub_obj_set[OF gs, of "gs @ [g]"] by simp
    then have "mset (ids_of (categorizedEmojiIds st')) = mset (ids_of (categorizedEmojiIds st)) + mset g"
      using mset_ids_of_obj_set[OF get, of "obj_set sub ?s (gs @ [g])"] unfolding st' by simp
    moreover have "titles_inv st' cs ss"
    proof -
      obtain stack' where s: "categoryStack st = hd (categoryStack st) # stack'"
        using ne by (cases "categoryStack st") auto
      have "fst ` set (obj_set sub ?s (gs @ [g])) \<subseteq> set ss"
        using keys keys_obj_set_present[OF gs, of "gs @ [g]"] by simp
      moreover have "categoryStack st' = ?c # stack'"
        using s stack c by simp
      ultimately show ?thesis
        using titles_inv_update[OF inv _ get st'] by simp
    qed
    ultimately show ?thesis by (simp add: Emoji g)
  qed
qed

lemma fresh_titles_Cons:
  "fresh_titles cs ss (r # rs) \<longleftrightarrow>
     fresh_titles cs ss [r]
     \<and> (case r of
          Category v \<Rightarrow> fresh_titles (toTitleCase v # cs) [] rs
        | Subcategory v \<Rightarrow> fresh_titles cs (toTitleCase v # ss) rs
        | Emoji v \<Rightarrow> fresh_titles cs ss rs)"
  by (cases r) auto

lemma walk_mset:
  assumes "walk st records = Inr st'" and "fresh_titles cs ss records" and "titles_inv st cs ss"
  shows "mset (ids_of (categorizedEmojiIds st'))
           = mset (ids_of (categorizedEmojiIds st)) + mset (appended (emojiLiteralToGithubEmojiIdsMap st) records)"
  using assms
proof (induction records arbitrary: st cs ss)
  case Nil
  then show ?case by (simp add: walk_def)
next
  case (Cons r rs)
  from Cons.prems(1) obtain s1 where s1: "walk_record st r = Inr s1" and rest: "walk s1 rs = Inr st'"
    by (auto simp: walk_Cons split: sum.splits)
  have l: "emojiLiteralToGithubEmojiIdsMap s1 = emojiLiteralToGithubEmojiIdsMap st"
    using walk_record_keeps[OF s1] by simp
  have f1: "fresh_titles cs ss [r]" using Cons.prems(2) fresh_titles_Cons by blast
  note step = walk_record_mset[OF s1 f1 Cons.prems(3)]
  have "mset (ids_of (categorizedEmojiIds st'))
      = mset (ids_of (categorizedEmojiIds s1)) + mset (appended (emojiLiteralToGithubEmojiIdsMap s1) rs)"
  proof (cases r)
    case (Category v)
    then show ?thesis
      using Cons.IH[OF rest, of "toTitleCase v # cs" "[]"] Cons.prems(2) step by simp
  next
    case (Subcategory v)
    then show ?thesis
      using Cons.IH[OF rest, of cs "toTitleCase v # ss"] Cons.prems(2) step by simp
  next
    case (Emoji v)
    then show ?thesis
      using Cons.IH[OF rest, of cs ss] Cons.prems(2) step by simp
  qed
  then show ?case
    using step appended_Cons[of "emojiLiteralToGithubEmojiIdsMap st" r rs] unfolding l by simp
qed

lemma fresh_titles_category_titles:
  "fresh_titles cs ss records \<Longrightarrow> set cs \<inter> set (category_titles records) = {}"
proof (induction records arbitrary: cs ss)
  case Nil
  then show ?case by simp
next
  case (Cons r rs)
  show ?case
  proof (cases r)
    case (Category v)
    then show ?thesis using Cons.IH[of "toTitleCase v # cs" "[]"] Cons.prems by auto
  next
    case (Subcategory v)
    then show ?thesis using Cons.IH[of cs "toTitleCase v # ss"] Cons.prems by auto
  next
    case (Emoji v)
    then show ?thesis using Cons.IH[of cs ss] Cons.prems by auto
  qed
qed

text \<open>
  Claim C1, amended: when the function returns a taxonomy, no two Category records have
  the same title (nor the title of the synthetic category), no two Subcategory records
  of one category have the same title, and no two Emoji records that match an identifier
  have the same normalized key, then the identifiers in the groups of the taxonomy,
  the synthetic category included, are the identifiers of the input, each exactly once.
\<close>

theorem no_loss_no_duplication:
  assumes "distinct (map fst json)"
    and "getGithubEmojiIdMap json = Inr idMap"
    and "getCategorizeGithubEmojiIds json records = Inr tax"
    and "fresh_titles [''GitHub Custom Emoji''] [] records"
    and "distinct (matched_keys idMap records)"
  shows "mset (ids_of tax) = mset (map fst json)"
proof -
  from categorize_result[OF assms(3)] assms(2)
  obtain st st' :: state where p: "partition_ids idMap = Inr st" and w: "walk st records = Inr st'"
    and drained: "githubEmojiIdMap st' = []"
    and tax: "tax = add_custom (githubSpecificEmojiUriToGithubEmojiIdsMap st') (pruned (categorizedEmojiIds st'))"
    by auto
  let ?uri = "githubSpecificEmojiUriToGithubEmojiIdsMap st"
  let ?cats = "categorizedEmojiIds st'"
  let ?name = "''GitHub Custom Emoji''"
  have uri: "githubSpecificEmojiUriToGithubEmojiIdsMap st' = ?uri"
    using walk_keeps[OF w] by simp
  have d: "distinct (map fst idMap)" using distinct_getGithubEmojiIdMap[OF assms(2)] .
  have all: "\<not> unmatched idMap records"
    using remaining_iff_unmatched[OF d p w] drained by simp
  have inv: "titles_inv st [?name] []"
    using partition_ids_keeps[OF p] by (simp add: titles_inv_def)
  have cats: "mset (ids_of ?cats) = mset (appended (emojiLiteralToGithubEmojiIdsMap st) records)"
    using walk_mset[OF w assms(4) inv] partition_ids_keeps[OF p] by (simp add: ids_of_def)
  have total: "mset (ids_of ?cats) + mset (custom_ids idMap) = mset (map fst json)"
    using mset_appended[OF p assms(5) all] cats getGithubEmojiIdMap_keys[OF assms(1,2)] by simp
  show ?thesis
  proof (cases "?uri = []")
    case True
    then have "custom_ids idMap = []" using partition_ids_uri_Nil[OF p] by simp
    moreover have "tax = pruned ?cats"
      unfolding tax uri using True by (simp add: add_custom_def Object_keys_def Object_entries_def)
    ultimately show ?thesis using total by (simp add: ids_of_pruned)
  next
    case False
    let ?v = "[('''', map snd (Object_entries ?uri))]"
    have "?name \<notin> set (category_titles records)"
      using fresh_titles_category_titles[OF assms(4)] by simp
    then have "?name \<notin> fst ` set (pruned ?cats)"
      using keys_pruned[of ?cats] walk_keys[OF w] partition_ids_keeps[OF p] by auto
    then have "tax = pruned ?cats @ [(?name, ?v)]"
      unfolding tax uri using False
      by (simp add: add_custom_def length_Object_keys obj_set_absent)
    then have "ids_of tax = ids_of (pruned ?cats) @ concat (map snd (Object_entries ?uri))"
      by (simp add: ids_of_def ids_of_sub_def)
    then have "mset (ids_of tax) = mset (ids_of ?cats) + mset (concat (map snd (Object_entries ?uri)))"
      by (simp add: ids_of_pruned)
    then show ?thesis
      using total mset_custom_groups[OF p] by simp
  qed
qed

lemma title_examples:
  "toTitleCase ''smileys-&-emotion'' = ''Smileys & Emotion''"
  "toTitleCase ''face-smiling'' = ''Face Smiling''"
  "toTitleCase ''face-affection'' = ''Face Affection''"
  "toTitleCase ''people-&-body'' = ''People & Body''"
  "toTitleCase ''hand-fingers-closed'' = ''Hand Fingers Closed''"
  by (simp_all add: toTitleCase_def replace_hyphens_def is_alpha_def toUpperCase_def is_space_def)

theorem no_loss_no_duplication_witness:
  "mset (ids_of [(''Smileys & Emotion'', [(''Face Smiling'', [[''smile'']])]),
                 (''People & Body'', [(''Hand Fingers Closed'', [[''+1'', ''thumbsup'']])]),
                 (''GitHub Custom Emoji'', [('''', [[''octocat'']])])])
   = mset (map fst [(''+1'', ''https://x/unicode/1f44d.png''), (''smile'', ''https://x/unicode/1f604.png''),
                    (''octocat'', ''https://x/emoji/octocat.png''), (''thumbsup'', ''https://x/unicode/1f44d.png'')])"
proof -
  let ?json = "[(''+1'', ''https://x/unicode/1f44d.png''), (''smile'', ''https://x/unicode/1f604.png''),
                (''octocat'', ''https://x/emoji/octocat.png''), (''thumbsup'', ''https://x/unicode/1f44d.png'')]"
  let ?idMap = "[(''+1'', Literal [0xD83D, 0xDC4D]), (''smile'', Literal [0xD83D, 0xDE04]),
                 (''octocat'', Custom ''octocat''), (''thumbsup'', Literal [0xD83D, 0xDC4D])]"
  let ?records = "[Category ''smileys-&-emotion'', Subcategory ''face-smiling'', Emoji [0xD83D, 0xDE04],
                   Subcategory ''face-affection'', Emoji [0x263A, 0xFE0F],
                   Category ''people-&-body'', Subcategory ''hand-fingers-closed'', Emoji [0xD83D, 0xDC4D]]"
  let ?st = "\<lparr>githubEmojiIdMap = [(''+1'', Literal [0xD83D, 0xDC4D]), (''smile'', Literal [0xD83D, 0xDE04]),
                                   (''thumbsup'', Literal [0xD83D, 0xDC4D])],
               emojiLiteralToGithubEmojiIdsMap =
                 [([0xD83D, 0xDC4D], [''+1'', ''thumbsup'']), ([0xD83D, 0xDE04], [''smile''])],
               githubSpecificEmojiUriToGithubEmojiIdsMap = [(''octocat'', [''octocat''])],
               categorizedEmojiIds = [], categoryStack = []\<rparr>"
  let ?st' = "\<lparr>githubEmojiIdMap = [],
               emojiLiteralToGithubEmojiIdsMap =
                 [([0xD83D, 0xDC4D], [''+1'', ''thumbsup'']), ([0xD83D, 0xDE04], [''smile''])],
               githubSpecificEmojiUriToGithubEmojiIdsMap = [(''octocat'', [''octocat''])],
               categorizedEmojiIds =
                 [(''Smileys & Emotion'', [(''Face Smiling'', [[''smile'']]), (''Face Affection'', [])]),
                  (''People & Body'', [(''Hand Fingers Closed'', [[''+1'', ''thumbsup'']])])],
               categoryStack = [''People & Body'', ''Hand Fingers Closed'']\<rparr>"
  have d: "distinct (map fst ?json)" by simp
  have g: "getGithubEmojiIdMap ?json = Inr ?idMap"
    by (simp add: getGithubEmojiIdMap_def decode_eval plain_eval)
  have p: "partition_ids ?idMap = Inr ?st"
    by (simp add: partition_eval plain_eval)
  have w: "walk ?st ?records = Inr ?st'"
    by (simp add: walk_def Let_def strip_selectors_def stack_key_def title_examples
        inherited_literal_def object_prototype_keys_def code_units_def
        obj_get_def obj_set_def obj_delete_def)
  have f: "finish ?st' = Inr [(''Smileys & Emotion'', [(''Face Smiling'', [[''smile'']])]),
                 (''People & Body'', [(''Hand Fingers Closed'', [[''+1'', ''thumbsup'']])]),
                 (''GitHub Custom Emoji'', [('''', [[''octocat'']])])]"
    by (simp add: finish_eval plain_eval)
  have c: "getCategorizeGithubEmojiIds ?json ?records
             = Inr [(''Smileys & Emotion'', [(''Face Smiling'', [[''smile'']])]),
                 (''People & Body'', [(''Hand Fingers Closed'', [[''+1'', ''thumbsup'']])]),
                 (''GitHub Custom Emoji'', [('''', [[''octocat'']])])]"
    by (simp add: getCategorizeGithubEmojiIds_def g p w f)
  have t: "fresh_titles [''GitHub Custom Emoji''] [] ?records"
    by (simp add: title_examples)
  have k: "distinct (matched_keys ?idMap ?records)"
    by (simp add: matched_keys_def strip_selectors_def)
  show ?thesis by (rule no_loss_no_duplication[OF d g c t k])
qed

text \<open>
  The claim as stated fails: two records with the same normalized key put the identifier
  into the taxonomy twice.
\<close>

theorem duplicated_identifier_counterexample:
  "getCategorizeGithubEmojiIds [(''relaxed'', ''https://x/unicode/263a.png'')]
     [Category ''smileys-&-emotion'', Subcategory ''face-affection'', Emoji [0x263A, 0xFE0F], Emoji [0x263A]]
     = Inr [(''Smileys & Emotion'', [(''Face Affection'', [[''relaxed''], [''relaxed'']])])]
   \<and> mset (ids_of [(''Smileys & Emotion'', [(''Face Affection'', [[''relaxed''], [''relaxed'']])])])
       \<noteq> mset (map fst [(''relaxed'', ''https://x/unicode/263a.png'')])"
  by (simp add: getCategorizeGithubEmojiIds_def getGithubEmojiIdMap_def decode_eval plain_eval
      partition_eval walk_eval finish_eval ids_of_def ids_of_sub_def)

subsection \<open>Splitting\<close>

lemma str_includes_sublist: "str_includes pat s = sublist pat s"
  by (induction s) (auto simp: sublist_Cons_right)

lemma js_split_nonempty: "sep \<noteq> [] \<Longrightarrow> js_split sep s \<noteq> []"
  by (cases s) (auto split: list.splits)

lemma hd_js_split: "sep \<noteq> [] \<Longrightarrow> hd (js_split sep s) = before_first sep s"
proof (induction s)
  case Nil
  then show ?case by simp
next
  case (Cons c cs)
  then show ?case
    using js_split_nonempty[OF Cons.prems, of cs] by (auto split: list.splits)
qed

lemma js_split_char_Cons:
  "js_split [c] (x # xs) =
     (if x = c then [] # js_split [c] xs
      else (case js_split [c] xs of [] \<Rightarrow> [[x]] | p # ps \<Rightarrow> (x # p) # ps))"
  by simp

lemma js_split_fields_from:
  "fields_from c field s = (case js_split [c] s of [] \<Rightarrow> [] | p # ps \<Rightarrow> (rev field @ p) # ps)"
proof (induction s arbitrary: field)
  case Nil
  then show ?case by simp
next
  case (Cons x xs)
  show ?case
    using Cons[of "[]"] Cons[of "x # field"] js_split_nonempty[of "[c]" xs]
    unfolding js_split_char_Cons by (auto split: list.splits)
qed

lemma js_split_fields: "js_split [c] s = fields c s"
  using js_split_fields_from[of c "[]" s] js_split_nonempty[of "[c]" s]
  by (auto simp: fields_def split: list.splits)

lemma js_split_char_free: "c \<notin> set s \<Longrightarrow> js_split [c] s = [s]"
proof (induction s)
  case Nil
  then show ?case by simp
next
  case (Cons x xs)
  then show ?case unfolding js_split_char_Cons by auto
qed

lemma js_split_char_two: "c \<in> set s \<Longrightarrow> \<exists>p q ps. js_split [c] s = p # q # ps"
proof (induction s)
  case Nil
  then show ?case by simp
next
  case (Cons x xs)
  show ?case
  proof (cases "x = c")
    case True
    then show ?thesis
      using js_split_nonempty[of "[c]" xs] unfolding js_split_char_Cons
      by (cases "js_split [c] xs") auto
  next
    case False
    then obtain p q ps where "js_split [c] xs = p # q # ps" using Cons by auto
    then show ?thesis using False unfolding js_split_char_Cons by simp
  qed
qed

lemma last_js_split_char:
  "c \<notin> set ys \<Longrightarrow> last (js_split [c] (xs @ c # ys)) = ys"
proof (induction xs)
  case Nil
  then show ?case
    using js_split_char_free[of c ys] unfolding append_Nil js_split_char_Cons by simp
next
  case (Cons x xs)
  obtain p q ps where s: "js_split [c] (xs @ c # ys) = p # q # ps"
    using js_split_char_two[of c "xs @ c # ys"] by auto
  show ?case
    using Cons s unfolding append_Cons js_split_char_Cons by auto
qed

lemma trailing_component_free: "CHR ''/'' \<notin> set s \<Longrightarrow> trailing_component s = s"
proof -
  assume "CHR ''/'' \<notin> set s"
  then have "takeWhile (\<lambda>c. c \<noteq> CHR ''/'') (rev s) = rev s"
    by (auto simp: takeWhile_eq_all_conv)
  then show ?thesis unfolding trailing_component_def by (simp only: rev_rev_ident)
qed

lemma trailing_component_append:
  assumes "CHR ''/'' \<notin> set ys"
  shows "trailing_component (xs @ CHR ''/'' # ys) = ys"
proof -
  have "takeWhile (\<lambda>c. c \<noteq> CHR ''/'') (rev ys @ CHR ''/'' # rev xs)
          = takeWhile (\<lambda>c. c \<noteq> CHR ''/'') (rev ys)"
    by (simp add: takeWhile_tail)
  then show ?thesis
    using trailing_component_free[OF assms] by (simp add: trailing_component_def)
qed

lemma getLast_split_slash: "getLast (js_split ''/'' url) = Some (trailing_component url)"
proof (cases "CHR ''/'' \<in> set url")
  case True
  then obtain xs ys where u: "url = xs @ CHR ''/'' # ys" and f: "CHR ''/'' \<notin> set ys"
    using split_list_last[of "CHR ''/''" url] by blast
  show ?thesis
    using last_js_split_char[OF f, of xs] trailing_component_append[OF f, of xs]
      js_split_nonempty[of "''/''" url]
    by (simp add: getLast_def u)
next
  case False
  then show ?thesis
    using js_split_char_free[of "CHR ''/''" url] trailing_component_free[of url]
    by (simp add: getLast_def)
qed

lemma file_stem_spec: "file_stem url = Inr (strip_extension (trailing_component url))"
proof -
  let ?name = "trailing_component url"
  obtain stem rest where s: "js_split ''.png'' ?name = stem # rest"
    using js_split_nonempty[of "''.png''" ?name] by (cases "js_split ''.png'' ?name") auto
  then have "stem = before_first ''.png'' ?name"
    using hd_js_split[of "''.png''" ?name] by simp
  then show ?thesis
    by (simp add: file_stem_def getLast_split_slash s strip_extension_def)
qed

subsection \<open>Hexadecimal texts\<close>

lemma is_hex_iff: "is_hex c \<longleftrightarrow> c \<in> set ''0123456789abcdefABCDEF''"
  by (auto simp: is_hex_def hex_digit_def split: if_splits)

lemma parseInt16_hex_text:
  assumes "hex_text t"
  shows "parseInt16 t = Some (int (hex_value t))"
proof -
  obtain c cs where t: "t = c # cs" and c: "is_hex c" and cs: "list_all is_hex cs"
    using assms by (cases t) (auto simp: hex_text_def)
  have ns: "\<not> is_space c" using c by (auto simp: is_hex_iff is_space_def)
  have sg: "c \<noteq> CHR ''+''" "c \<noteq> CHR ''-''" using c by (auto simp: is_hex_iff)
  have px: "\<not> prefix ''0x'' t" "\<not> prefix ''0X'' t"
    using cs by (auto simp: t is_hex_iff prefix_def)
  have tw: "takeWhile is_hex t = t"
    using c cs by (simp add: t takeWhile_eq_all_conv list_all_iff)
  have s1: "dropWhile is_space t = t" using ns by (simp add: t)
  show ?thesis
    unfolding parseInt16_def Let_def s1 using sg px tw by (auto simp: t)
qed

lemma fromCodePoint_nat:
  "fromCodePoint (Some (int n)) = (if n \<le> 0x10FFFF then Inr (utf16 n) else Inl RangeError)"
  by (auto simp: fromCodePoint_def utf16_def)

lemma codePoints_hex_texts:
  assumes "list_all hex_text ts"
  shows "codePoints ts =
           (if list_all (\<lambda>t. hex_value t \<le> 0x10FFFF) ts
            then Inr (concat (map (\<lambda>t. utf16 (hex_value t)) ts)) else Inl RangeError)"
  using assms
proof (induction ts)
  case Nil
  then show ?case by simp
next
  case (Cons t ts)
  then show ?case
    by (simp add: parseInt16_hex_text fromCodePoint_nat)
qed

subsection \<open>decode\<close>

lemma decode_custom:
  "\<not> sublist ''/unicode/'' url \<Longrightarrow> decode url = Inr (Custom (strip_extension (trailing_component url)))"
  by (simp add: decode_def file_stem_spec str_includes_sublist)

lemma decode_unicode:
  assumes "sublist ''/unicode/'' url"
    and "list_all hex_text (fields (CHR ''-'') (strip_extension (trailing_component url)))"
  shows "decode url = decode_spec url"
  using assms codePoints_hex_texts[OF assms(2)]
  by (simp add: decode_def decode_spec_def file_stem_spec str_includes_sublist js_split_fields)

text \<open>
  Claim C8: for a locator that contains \<open>/unicode/\<close>, \<open>decode\<close> takes the trailing path
  component, cuts it at the extension \<open>.png\<close>, splits the rest at every \<open>-\<close> into
  hexadecimal code-point texts and concatenates the code points they denote in the order
  of the file name; \<open>.../unicode/1f600.png\<close> gives U+1F600 and
  \<open>.../unicode/1f1fa-1f1f8.png\<close> gives U+1F1FA U+1F1F8. For a locator without \<open>/unicode/\<close> it
  gives the platform reference of the trailing path component cut at the extension.
\<close>

theorem decode_locator:
  "(sublist ''/unicode/'' url
      \<and> list_all hex_text (fields (CHR ''-'') (strip_extension (trailing_component url)))
      \<longrightarrow> decode url = decode_spec url)
   \<and> (\<not> sublist ''/unicode/'' url \<longrightarrow>
        decode url = Inr (Custom (strip_extension (trailing_component url))))
   \<and> decode (p @ ''/unicode/1f600.png'') = Inr (Literal (utf16 0x1F600))
   \<and> decode (p @ ''/unicode/1f1fa-1f1f8.png'') = Inr (Literal (utf16 0x1F1FA @ utf16 0x1F1F8))"
proof -
  have s: "sublist ''/unicode/'' (p @ ''/unicode/'' @ name)" for name
    by (rule sublist_appendI)
  have t: "trailing_component (p @ ''/unicode/'' @ name) = name" if "CHR ''/'' \<notin> set name" for name
    using trailing_component_append[OF that, of "p @ ''/unicode''"] by simp
  have one: "decode (p @ ''/unicode/'' @ ''1f600.png'') = Inr (Literal (utf16 0x1F600))"
    using decode_unicode[OF s[of "''1f600.png''"]] t[of "''1f600.png''"] s[of "''1f600.png''"]
    by (simp add: decode_spec_def Let_def strip_extension_def fields_def hex_text_def is_hex_def
        hex_digit_def hex_value_def s)
  have two: "decode (p @ ''/unicode/'' @ ''1f1fa-1f1f8.png'')
               = Inr (Literal (utf16 0x1F1FA @ utf16 0x1F1F8))"
    using decode_unicode[OF s[of "''1f1fa-1f1f8.png''"]] t[of "''1f1fa-1f1f8.png''"] s[of "''1f1fa-1f1f8.png''"]
    by (simp add: decode_spec_def Let_def strip_extension_def fields_def hex_text_def is_hex_def
        hex_digit_def hex_value_def s)
  show ?thesis
    using decode_unicode[of url] decode_custom[of url] one two by simp
qed

theorem decode_locator_witness:
  "decode ''https://github.githubassets.com/images/icons/emoji/unicode/1f468-1f469-1f467.png?v8''
     = Inr (Literal [0xD83D, 0xDC68, 0xD83D, 0xDC69, 0xD83D, 0xDC67])
   \<and> decode ''https://github.githubassets.com/images/icons/emoji/octocat.png?v8'' = Inr (Custom ''octocat'')"
proof -
  let ?u = "''https://github.githubassets.com/images/icons/emoji/unicode/1f468-1f469-1f467.png?v8''"
  let ?c = "''https://github.githubassets.com/images/icons/emoji/octocat.png?v8''"
  have su: "sublist ''/unicode/'' ?u"
    by (simp add: str_includes_sublist[symmetric])
  have sc: "\<not> sublist ''/unicode/'' ?c"
    by (simp add: str_includes_sublist[symmetric])
  have stem: "strip_extension (trailing_component ?u) = ''1f468-1f469-1f467''"
    by (simp add: strip_extension_def trailing_component_def)
  have texts: "fields (CHR ''-'') ''1f468-1f469-1f467'' = [''1f468'', ''1f469'', ''1f467'']"
    by (simp add: fields_def)
  have hex: "list_all hex_text [''1f468'', ''1f469'', ''1f467'']"
    by (simp add: hex_text_def is_hex_def hex_digit_def)
  have spec: "decode_spec ?u = Inr (Literal [0xD83D, 0xDC68, 0xD83D, 0xDC69, 0xD83D, 0xDC67])"
    unfolding decode_spec_def Let_def stem texts using su
    by (simp add: hex_value_def hex_digit_def utf16_def)
  have stemc: "strip_extension (trailing_component ?c) = ''octocat''"
    by (simp add: strip_extension_def trailing_component_def)
  show ?thesis
    using decode_locator[of ?u] decode_locator[of ?c] su sc hex spec
    unfolding stem texts stemc by simp
qed

end
